theory Spec2Isabelle
  imports Complex_Main "HOL-Library.Word" "HOL-Library.List_Lexorder"
begin

section \<open>The consistency-check workload of fdbserver/workloads/ConsistencyCheck.actor.cpp\<close>

text \<open>
  The workload is a C++ object whose methods are Flow actors. The embedding keeps the
  fields of \<open>struct ConsistencyCheckWorkload\<close> in a record, passes the object through
  every function that mutates it, and writes each \<open>TraceEvent\<close> to a log carried in
  the same record. Replies of remote calls are inputs of the functions.
\<close>

subsection \<open>Trace events\<close>

datatype severity = SevInfo | SevWarn | SevError

text \<open>
  A detail value is a number, a text, or raw bytes that the source passes through
  \<open>printable\<close>. A detail name built with \<open>format("...%d...", j)\<close> keeps the format
  string and the argument apart (\<open>Fmt\<close>). The events below keep the details that
  carry a result of the check. Details that only say which server, key range or read
  version an event is about, and details of type \<open>double\<close>, are left out, and so
  is the \<open>Error\<close> detail that \<open>.error(e)\<close> adds. A \<open>TraceEvent\<close> without a
  severity is logged at \<open>SevInfo\<close>.
\<close>

type_synonym bytes = "8 word list"

datatype detail_name = Lit string | Fmt string int

datatype detail_value = Num int | Text string | Printable bytes

datatype trace_event = TraceEvent severity string "(detail_name \<times> detail_value) list"

subsection \<open>The workload object\<close>

record ConsistencyCheckWorkload =
  clientId :: int
  clientCount :: int
  performQuiescentChecks :: bool
  quiescentWaitTimeout :: real
  firstClient :: bool
  distributed :: bool
  shardSampleFactor :: int
  failureIsError :: bool
  rateLimit :: int
  shuffleShards :: bool
  success :: bool
  repetitions :: int
  indefinite :: bool
  trace :: "trace_event list"

text \<open>
  The options of the test specification. \<open>getOption\<close> returns the configured value,
  or the default when the option is absent.
\<close>

record workload_options =
  opt_performQuiescentChecks :: "bool option"
  opt_quiescentWaitTimeout :: "real option"
  opt_distributed :: "bool option"
  opt_shardSampleFactor :: "int option"
  opt_failureIsError :: "bool option"
  opt_rateLimit :: "int option"
  opt_shuffleShards :: "bool option"
  opt_indefinite :: "bool option"

definition getOption :: "'a option \<Rightarrow> 'a \<Rightarrow> 'a" where
  "getOption configured dflt = (case configured of None \<Rightarrow> dflt | Some v \<Rightarrow> v)"

text \<open>The constructor (lines 73-90). \<open>cid\<close> and \<open>ccount\<close> come from the workload context.\<close>

definition new_workload :: "workload_options \<Rightarrow> int \<Rightarrow> int \<Rightarrow> ConsistencyCheckWorkload" where
  "new_workload options cid ccount =
     \<lparr> clientId = cid,
       clientCount = ccount,
       performQuiescentChecks = getOption (opt_performQuiescentChecks options) False,
       quiescentWaitTimeout = getOption (opt_quiescentWaitTimeout options) 600,
       firstClient = (cid = 0),
       distributed = getOption (opt_distributed options) True,
       shardSampleFactor = max (getOption (opt_shardSampleFactor options) 1) 1,
       failureIsError = getOption (opt_failureIsError options) False,
       rateLimit = getOption (opt_rateLimit options) 0,
       shuffleShards = getOption (opt_shuffleShards options) False,
       success = True,
       repetitions = 0,
       indefinite = getOption (opt_indefinite options) False,
       trace = [] \<rparr>"

definition traceEvent ::
  "severity \<Rightarrow> string \<Rightarrow> (detail_name \<times> detail_value) list \<Rightarrow>
   ConsistencyCheckWorkload \<Rightarrow> ConsistencyCheckWorkload" where
  "traceEvent sv nm ds self = self\<lparr>trace := trace self @ [TraceEvent sv nm ds]\<rparr>"

text \<open>\<open>testFailure\<close> (lines 142-153): clears \<open>success\<close> and logs the reason.\<close>

definition testFailure :: "string \<Rightarrow> ConsistencyCheckWorkload \<Rightarrow> ConsistencyCheckWorkload" where
  "testFailure message self =
     traceEvent (if failureIsError self then SevError else SevWarn) ''TestFailure''
       [(Lit ''Workload'',
           Text (if performQuiescentChecks self then ''QuiescentCheck'' else ''ConsistencyCheck'')),
        (Lit ''Reason'', Text (''Consistency check: '' @ message))]
       (self\<lparr>success := False\<rparr>)"

text \<open>\<open>check\<close> (lines 132-135): the verdict reported to the test harness.\<close>

definition check :: "ConsistencyCheckWorkload \<Rightarrow> bool" where
  "check self = success self"

text \<open>The messages of the failures recorded in a log, in order.\<close>

fun failure_of :: "trace_event \<Rightarrow> string option" where
  "failure_of (TraceEvent sv nm ds) =
     (if nm = ''TestFailure'' then
        (case map_of ds (Lit ''Reason'') of
           Some (Text r) \<Rightarrow> Some (drop (length ''Consistency check: '') r)
         | _ \<Rightarrow> None)
      else None)"

definition failures :: "trace_event list \<Rightarrow> string list" where
  "failures evs = List.map_filter failure_of evs"

text \<open>The events a step added to the log, and the failures among them.\<close>

definition new_events :: "ConsistencyCheckWorkload \<Rightarrow> ConsistencyCheckWorkload \<Rightarrow> trace_event list" where
  "new_events before after = drop (length (trace before)) (trace after)"

definition new_failures :: "ConsistencyCheckWorkload \<Rightarrow> ConsistencyCheckWorkload \<Rightarrow> string list" where
  "new_failures before after = failures (new_events before after)"

subsection \<open>Every write to the workload object\<close>

text \<open>
  After construction the source assigns a field of the workload in three places only:
  \<open>testFailure\<close> (line 144), the handler of \<open>_setup\<close> that gives up quiescence
  (lines 117-119, after a \<open>testFailure\<close>), and the repetition counter of \<open>_start\<close>
  (line 161). Every other statement reads the fields, writes a trace event, or calls
  \<open>testFailure\<close>.
\<close>

datatype mutation =
    TestFailure string
  | QuietDatabaseError
  | NextRepetition
  | Trace severity string "(detail_name \<times> detail_value) list"

fun mutate :: "ConsistencyCheckWorkload \<Rightarrow> mutation \<Rightarrow> ConsistencyCheckWorkload" where
  "mutate self (TestFailure message) = testFailure message self"
| "mutate self QuietDatabaseError =
     (testFailure ''Unable to achieve a quiet database''
        (traceEvent SevInfo ''ConsistencyCheck_QuietDatabaseError'' [] self))
       \<lparr>performQuiescentChecks := False\<rparr>"
| "mutate self NextRepetition = self\<lparr>repetitions := repetitions self + 1\<rparr>"
| "mutate self (Trace sv nm ds) = traceEvent sv nm ds self"

definition is_failure :: "mutation \<Rightarrow> bool" where
  "is_failure m = (case m of TestFailure _ \<Rightarrow> True | QuietDatabaseError \<Rightarrow> True | _ \<Rightarrow> False)"

definition run_mutations :: "ConsistencyCheckWorkload \<Rightarrow> mutation list \<Rightarrow> ConsistencyCheckWorkload" where
  "run_mutations self ms = foldl mutate self ms"

subsection \<open>Errors and control flow\<close>

text \<open>
  The error codes the source names, and a constructor for any other code. A statement
  of an actor either falls through to the next statement with its local results
  (\<open>Next\<close>), returns a value from the actor (\<open>Return\<close>), or throws (\<open>Throw\<close>);
  each carries the workload as the statement left it.
\<close>

datatype Error =
    transaction_too_old
  | future_version
  | wrong_shard_server
  | all_alternatives_failed
  | server_request_queue_full
  | attribute_not_found
  | internal_error
  | other_error int

datatype ('a, 'r) step =
    Next 'a ConsistencyCheckWorkload
  | Return 'r ConsistencyCheckWorkload
  | Throw Error ConsistencyCheckWorkload

fun state_of :: "('a, 'r) step \<Rightarrow> ConsistencyCheckWorkload" where
  "state_of (Next a self) = self"
| "state_of (Return r self) = self"
| "state_of (Throw e self) = self"

fun returned :: "('a, 'r) step \<Rightarrow> 'r option" where
  "returned (Return r self) = Some r"
| "returned other = None"

fun thrown :: "('a, 'r) step \<Rightarrow> Error option" where
  "thrown (Throw e self) = Some e"
| "thrown other = None"

fun continues :: "('a, 'r) step \<Rightarrow> 'a option" where
  "continues (Next a self) = Some a"
| "continues other = None"

subsection \<open>getVersion (lines 287-304)\<close>

type_synonym Version = int

text \<open>
  Each turn of the loop makes a fresh transaction and asks it for a read version;
  making the transaction and setting \<open>LOCK_AWARE\<close> on it, outside the \<open>try\<close>, do
  not throw. The
  input is the outcome of each successive request, \<open>Inl e\<close> when it throws \<open>e\<close>. The
  handler calls \<open>tr.onError(e)\<close> and drops the future it returns: \<open>onError\<close> is the
  outcome of waiting for that future, the error again when the client does not retry
  it. The result is \<open>None\<close> while the loop is still running after the last scripted
  outcome, \<open>Some (Inr v)\<close> when the actor returns \<open>v\<close>, and \<open>Some (Inl e)\<close> when it
  throws \<open>e\<close> to its caller.
\<close>

definition onError :: "(Error \<Rightarrow> bool) \<Rightarrow> Error \<Rightarrow> Error + unit" where
  "onError retryable e = (if retryable e then Inr () else Inl e)"

fun getVersion :: "(Error \<Rightarrow> bool) \<Rightarrow> (Error + Version) list \<Rightarrow> (Error + Version) option" where
  "getVersion retryable [] = None"
| "getVersion retryable (reply # later) =
     (case reply of
        Inr version \<Rightarrow> Some (Inr version)
      | Inl e \<Rightarrow> (let discarded = onError retryable e in getVersion retryable later))"

text \<open>
  \<open>getDatabaseSize\<close> (lines 548-559) has the same loop but waits for \<open>tr.onError(e)\<close>,
  so an error the client does not retry leaves the actor.
\<close>

fun getDatabaseSize :: "(Error \<Rightarrow> bool) \<Rightarrow> (Error + int) list \<Rightarrow> (Error + int) option" where
  "getDatabaseSize retryable [] = None"
| "getDatabaseSize retryable (reply # later) =
     (case reply of
        Inr bytes \<Rightarrow> Some (Inr bytes)
      | Inl e \<Rightarrow>
          (case onError retryable e of
             Inl e' \<Rightarrow> Some (Inl e')
           | Inr u \<Rightarrow> getDatabaseSize retryable later))"

subsection \<open>Work partitioning of checkDataConsistency (lines 573-575, 602)\<close>

text \<open>
  The three locals are C++ \<open>int\<close>s. \<open>int32\<close> is the value a 32-bit two's-complement
  register holds after an operation whose exact result is \<open>x\<close>.
\<close>

definition int32 :: "int \<Rightarrow> int" where
  "int32 x = (x + 2 ^ 31) mod 2 ^ 32 - 2 ^ 31"

definition effectiveClientCount :: "ConsistencyCheckWorkload \<Rightarrow> int" where
  "effectiveClientCount self = (if distributed self then clientCount self else 1)"

definition first_index :: "ConsistencyCheckWorkload \<Rightarrow> int" where
  "first_index self = int32 (clientId self * int32 (shardSampleFactor self + 1))"

definition increment :: "ConsistencyCheckWorkload \<Rightarrow> int" where
  "increment self =
     (if distributed self \<and> \<not> firstClient self
      then int32 (effectiveClientCount self * shardSampleFactor self) else 1)"

text \<open>
  The loop header \<open>for(; i < ranges.size(); i += increment)\<close>. The comparison is
  made in \<open>size_t\<close>, so \<open>i\<close> is read modulo \<open>2^64\<close>. The function lists the
  indices the loop visits when no shard makes the actor return or throw; it is
  \<open>None\<close> when the loop is still running after \<open>fuel\<close> turns.
\<close>

definition in_range :: "int \<Rightarrow> nat \<Rightarrow> bool" where
  "in_range i n = (i mod 2 ^ 64 < int n)"

fun shard_loop :: "nat \<Rightarrow> int \<Rightarrow> int \<Rightarrow> nat \<Rightarrow> int list option" where
  "shard_loop fuel i inc n =
     (if \<not> in_range i n then Some []
      else (case fuel of
              0 \<Rightarrow> None
            | Suc fuel' \<Rightarrow> map_option (Cons i) (shard_loop fuel' (int32 (i + inc)) inc n)))"

subsection \<open>The team-size check of a shard (lines 613-637)\<close>

type_synonym UID = "64 word \<times> 64 word"

text \<open>
  \<open>sourceStorageServers\<close> and \<open>destStorageServers\<close> are what
  \<open>decodeKeyServersValue\<close> reads from the location value of the shard, and
  \<open>storageTeamSize\<close> is the field of the configuration. The result of the block is
  \<open>isRelocating\<close> and the replicas chosen for the reads. The comparison converts the
  configured \<open>int\<close> to \<open>size_t\<close>; a negative value then differs from every
  vector size, as it does here.
\<close>

definition checkTeamSize ::
  "ConsistencyCheckWorkload \<Rightarrow> int \<Rightarrow> UID list \<Rightarrow> UID list \<Rightarrow> (bool \<times> UID list, bool) step" where
  "checkTeamSize self storageTeamSize sourceStorageServers destStorageServers =
     (let isRelocating = (length destStorageServers > 0) in
      if firstClient self \<and> performQuiescentChecks self
         \<and> int (length sourceStorageServers) \<noteq> storageTeamSize
      then Return False
             (testFailure ''Invalid team size''
               (traceEvent SevInfo ''ConsistencyCheck_InvalidTeamSize''
                  [(Lit ''teamSize'', Num (int (length sourceStorageServers))),
                   (Lit ''desiredTeamSize'', Num storageTeamSize)] self))
      else Next (isRelocating,
                 if isRelocating then destStorageServers else sourceStorageServers) self)"

subsection \<open>The estimator check of a shard (lines 928-952)\<close>

text \<open>
  \<open>estimatedBytes\<close> holds one \<open>int64_t\<close> per replica, \<open>-1\<close> for a replica that
  did not answer; \<open>sampledBytes\<close> is the size recomputed from the data read. The loop
  stops at the first \<open>break\<close>.
\<close>

fun estimate_loop ::
  "int list \<Rightarrow> int \<Rightarrow> bool \<Rightarrow> ConsistencyCheckWorkload \<Rightarrow> bool \<times> ConsistencyCheckWorkload" where
  "estimate_loop [] sampledBytes hasValidEstimate self = (hasValidEstimate, self)"
| "estimate_loop (e # later) sampledBytes hasValidEstimate self =
     (if e \<ge> 0 \<and> e \<noteq> sampledBytes then
        (False,
         testFailure ''Storage servers had incorrect sampled estimate''
           (traceEvent SevInfo ''ConsistencyCheck_IncorrectEstimate''
              [(Lit ''EstimatedBytes'', Num e), (Lit ''CorrectSampledBytes'', Num sampledBytes)]
              self))
      else if e < 0 then
        (False, testFailure ''Could not get storage metrics from server'' self)
      else estimate_loop later sampledBytes hasValidEstimate self)"

definition checkEstimates ::
  "ConsistencyCheckWorkload \<Rightarrow> int list \<Rightarrow> int \<Rightarrow> bool \<times> ConsistencyCheckWorkload" where
  "checkEstimates self estimatedBytes sampledBytes =
     (let hasValidEstimate = (length estimatedBytes > 0) in
      if performQuiescentChecks self
      then estimate_loop estimatedBytes sampledBytes hasValidEstimate self
      else (hasValidEstimate, self))"

text \<open>An estimate that the loop passes over: non-negative and equal to the recomputed size.\<close>

definition matches_sample :: "int \<Rightarrow> int \<Rightarrow> bool" where
  "matches_sample sampledBytes e = (e \<ge> 0 \<and> e = sampledBytes)"

subsection \<open>The statistical size check of a shard (lines 954-969)\<close>

text \<open>
  \<open>shardVariance\<close> and \<open>stdDev\<close> are C++ \<open>double\<close>s. The arithmetic of doubles is
  not part of this file: the operations the block uses are taken as a parameter, so
  that what is proved holds for every floating-point arithmetic.
\<close>

record 'd double_ops =
  d_sqrt :: "'d \<Rightarrow> 'd"
  d_times :: "'d \<Rightarrow> 'd \<Rightarrow> 'd"
  d_less :: "'d \<Rightarrow> 'd \<Rightarrow> bool"
  d_of_int :: "int \<Rightarrow> 'd"

definition estimateError :: "int \<Rightarrow> int \<Rightarrow> int" where
  "estimateError shardBytes sampledBytes = int32 (abs (int32 (shardBytes - sampledBytes)))"

definition too_inaccurate :: "'d double_ops \<Rightarrow> int \<Rightarrow> int \<Rightarrow> int \<Rightarrow> 'd \<Rightarrow> bool" where
  "too_inaccurate ops sampledKeys shardBytes sampledBytes shardVariance =
     (let stdDev = d_sqrt ops shardVariance;
          failErrorNumStdDev = d_of_int ops 7
      in sampledKeys > 30
         \<and> d_less ops (d_times ops failErrorNumStdDev stdDev)
              (d_of_int ops (estimateError shardBytes sampledBytes)))"

definition checkShardEstimate ::
  "'d double_ops \<Rightarrow> ConsistencyCheckWorkload \<Rightarrow> int \<Rightarrow> int \<Rightarrow> int \<Rightarrow> int \<Rightarrow> 'd \<Rightarrow>
   (unit, bool) step" where
  "checkShardEstimate ops self shardKeys sampledKeys shardBytes sampledBytes shardVariance =
     (if too_inaccurate ops sampledKeys shardBytes sampledBytes shardVariance
      then Next ()
             (testFailure ''Shard size is more than 7.000000 std dev from estimate''
               (traceEvent SevInfo ''ConsistencyCheck_InaccurateShardEstimate''
                  [(Lit ''Estimate'', Num sampledBytes), (Lit ''Actual'', Num shardBytes),
                   (Lit ''NumKeys'', Num shardKeys), (Lit ''NumSampledKeys'', Num sampledKeys)]
                  self))
      else Next () self)"

subsection \<open>checkForUndesirableServers (lines 1013-1052)\<close>

type_synonym NetworkAddress = "32 word \<times> 16 word"

record StorageServerInterface =
  id_of :: UID
  address :: NetworkAddress

text \<open>
  \<open>storageServers\<close> is the list \<open>getStorageServers\<close> returned, and
  \<open>typeReply i\<close> the answer of server \<open>i\<close> to \<open>getKeyValueStoreType\<close>, \<open>None\<close>
  when it did not answer in time. The store types are the values of an enumeration
  declared elsewhere; only their equality is used. The inner loop looks for a later
  server with the address of server \<open>i\<close>.
\<close>

fun undesirable_loop ::
  "(nat \<Rightarrow> 's option) \<Rightarrow> 's \<Rightarrow> nat \<Rightarrow> StorageServerInterface list \<Rightarrow>
   ConsistencyCheckWorkload \<Rightarrow> bool \<times> ConsistencyCheckWorkload" where
  "undesirable_loop typeReply storageServerStoreType i [] self = (False, self)"
| "undesirable_loop typeReply storageServerStoreType i (server # later) self =
     (let keyValueStoreType = typeReply i;
          checked =
            (case keyValueStoreType of
               None \<Rightarrow>
                 Inr (testFailure ''Storage server unavailable''
                        (traceEvent SevInfo ''ConsistencyCheck_ServerUnavailable'' [] self))
             | Some t \<Rightarrow>
                 if t \<noteq> storageServerStoreType then
                   Inl (testFailure ''Storage server has wrong key-value store type''
                          (traceEvent SevInfo ''ConsistencyCheck_WrongKeyValueStoreType'' [] self))
                 else Inr self)
      in case checked of
           Inl self' \<Rightarrow> (True, self')
         | Inr self' \<Rightarrow>
             (case find (\<lambda>other. address server = address other) later of
                Some other \<Rightarrow>
                  (True,
                   testFailure ''Multiple storage servers have the same address''
                     (traceEvent SevInfo ''ConsistencyCheck_UndesirableServer'' [] self'))
              | None \<Rightarrow> undesirable_loop typeReply storageServerStoreType (Suc i) later self'))"

definition checkForUndesirableServers ::
  "StorageServerInterface list \<Rightarrow> (nat \<Rightarrow> 's option) \<Rightarrow> 's \<Rightarrow> ConsistencyCheckWorkload \<Rightarrow>
   bool \<times> ConsistencyCheckWorkload" where
  "checkForUndesirableServers storageServers typeReply storageServerStoreType self =
     undesirable_loop typeReply storageServerStoreType 0 storageServers self"

text \<open>The two findings that make the function return true.\<close>

definition wrong_store_type :: "StorageServerInterface list \<Rightarrow> (nat \<Rightarrow> 's option) \<Rightarrow> 's \<Rightarrow> bool" where
  "wrong_store_type storageServers typeReply storageServerStoreType =
     (\<exists>i < length storageServers.
        typeReply i \<noteq> None \<and> typeReply i \<noteq> Some storageServerStoreType)"

definition duplicate_address :: "StorageServerInterface list \<Rightarrow> bool" where
  "duplicate_address storageServers = (\<not> distinct (map address storageServers))"

subsection \<open>The queue checks of runCheck (lines 196-239)\<close>

text \<open>
  The block runs on the first client of a quiescent run. The three queue sizes are read
  from the cluster; each read is an input here, \<open>Inl e\<close> when it throws \<open>e\<close>. An
  error of the first two reads, and any error of the third but \<open>attribute_not_found\<close>,
  leaves the block for the handler of \<open>runCheck\<close>.
\<close>

definition storageQueueCheck ::
  "bool \<Rightarrow> Error + int \<Rightarrow> ConsistencyCheckWorkload \<Rightarrow> (unit, unit) step" where
  "storageQueueCheck hasUndesirableServers storageQueue self =
     (case storageQueue of
        Inr maxStorageServerQueueSize \<Rightarrow>
          if maxStorageServerQueueSize > 0 then
            Next ()
              (testFailure ''Non-zero storage server queue size''
                (traceEvent SevInfo ''ConsistencyCheck_NonZeroStorageServerQueue''
                   [(Lit ''MaxQueueSize'', Num maxStorageServerQueueSize)] self))
          else Next () self
      | Inl e \<Rightarrow>
          if e = attribute_not_found then
            (let self' = traceEvent SevInfo ''ConsistencyCheck_StorageQueueSizeError''
                           [(Lit ''Reason'', Text ''Could not read queue size'')] self
             in if \<not> hasUndesirableServers
                then Next () (testFailure ''Could not read storage queue size'' self')
                else Next () self')
          else Throw e self)"

definition quiescentQueueChecks ::
  "StorageServerInterface list \<Rightarrow> (nat \<Rightarrow> 's option) \<Rightarrow> 's \<Rightarrow>
   Error + int \<Rightarrow> Error + int \<Rightarrow> Error + int \<Rightarrow> ConsistencyCheckWorkload \<Rightarrow> (unit, unit) step" where
  "quiescentQueueChecks storageServers typeReply storageServerStoreType
       dataDistributionQueue tLogQueue storageQueue self =
     (if firstClient self \<and> performQuiescentChecks self then
        (case checkForUndesirableServers storageServers typeReply storageServerStoreType self of
           (hasUndesirableServers, self1) \<Rightarrow>
             (case dataDistributionQueue of
                Inl e \<Rightarrow> Throw e self1
              | Inr inDataDistributionQueue \<Rightarrow>
                  (let self2 =
                         (if inDataDistributionQueue > 0 then
                            testFailure ''Non-zero data distribution queue/in-flight size''
                              (traceEvent SevInfo ''ConsistencyCheck_NonZeroDataDistributionQueue''
                                 [(Lit ''QueueSize'', Num inDataDistributionQueue)] self1)
                          else self1)
                   in case tLogQueue of
                        Inl e \<Rightarrow> Throw e self2
                      | Inr maxTLogQueueSize \<Rightarrow>
                          (let self3 =
                                 (if maxTLogQueueSize > 100000 then
                                    testFailure ''Non-zero tlog queue size''
                                      (traceEvent SevInfo ''ConsistencyCheck_NonZeroTLogQueue''
                                         [(Lit ''MaxQueueSize'', Num maxTLogQueueSize)] self2)
                                  else self2)
                           in storageQueueCheck hasUndesirableServers storageQueue self3))))
      else Next () self)"

subsection \<open>The replies of a page of getKeyLocations (lines 401-435, 460-467)\<close>

type_synonym KeyValueRef = "bytes \<times> bytes"

record GetKeyValuesReply =
  data :: "KeyValueRef list"
  more_flag :: bool

text \<open>
  \<open>keyValueFutures\<close> holds the reply of each replica of the shard, \<open>None\<close> for a
  replica that did not answer; \<open>more_flag\<close> is the field \<open>more\<close> of a reply. The
  loop runs \<open>j\<close> over the replies with \<open>firstValidStorageServer\<close> starting at
  \<open>-1\<close>; it falls through with the index of the reference reply, returns false, or
  throws.
\<close>

function readLocationResults ::
  "GetKeyValuesReply option list \<Rightarrow> nat \<Rightarrow> int \<Rightarrow> ConsistencyCheckWorkload \<Rightarrow> (int, bool) step" where
  "readLocationResults keyValueFutures j firstValidStorageServer self =
     (if j < length keyValueFutures then
        (case keyValueFutures ! j of
           None \<Rightarrow>
             if performQuiescentChecks self then
               Return False
                 (testFailure ''Key server unavailable''
                   (traceEvent SevInfo ''ConsistencyCheck_KeyServerUnavailable'' [] self))
             else if firstValidStorageServer < 0 \<and> int j = int (length keyValueFutures) - 1 then
               Throw all_alternatives_failed self
             else readLocationResults keyValueFutures (j + 1) firstValidStorageServer self
         | Some reply \<Rightarrow>
             if firstValidStorageServer < 0 then
               readLocationResults keyValueFutures (j + 1) (int j) self
             else if data reply \<noteq> data (the (keyValueFutures ! nat firstValidStorageServer))
                     \<or> more_flag reply \<noteq> more_flag (the (keyValueFutures ! nat firstValidStorageServer)) then
               Return False
                 (testFailure ''Key servers inconsistent''
                   (traceEvent SevInfo ''ConsistencyCheck_InconsistentKeyServers'' [] self))
             else readLocationResults keyValueFutures (j + 1) firstValidStorageServer self)
      else Next firstValidStorageServer self)"
  by pat_completeness auto
termination
  by (relation "measure (\<lambda>(keyValueFutures, j, firstValidStorageServer, self). length keyValueFutures - j)")
     auto

text \<open>
  What \<open>getKeyLocations\<close> does with a page. When the loop falls through, the reference
  reply is decoded and its rows are appended to \<open>keyLocations\<close> (\<open>Reference\<close>). The
  handler of the enclosing \<open>try\<close> runs the page again after a version error
  (\<open>Retry\<close>) and throws every other error on. The result of the actor is the boolean
  it returns with the value it sent to \<open>keyLocationPromise\<close>; the only \<open>send\<close> is at
  line 472, after the last page, so a \<open>return false\<close> inside the loop sends nothing.
\<close>

datatype page_outcome = Reference int | Retry

definition getKeyLocations_page ::
  "GetKeyValuesReply option list \<Rightarrow> ConsistencyCheckWorkload \<Rightarrow>
   (page_outcome, bool \<times> KeyValueRef list option) step" where
  "getKeyLocations_page keyValueFutures self =
     (case readLocationResults keyValueFutures 0 (- 1) self of
        Next firstValidStorageServer self' \<Rightarrow> Next (Reference firstValidStorageServer) self'
      | Return r self' \<Rightarrow> Return (r, None) self'
      | Throw e self' \<Rightarrow>
          if e = transaction_too_old \<or> e = future_version \<or> e = transaction_too_old then
            Next Retry (traceEvent SevInfo ''ConsistencyCheck_RetryGetKeyLocations'' [] self')
          else Throw e self')"

text \<open>
  The handler of \<open>runCheck\<close> (lines 273-279), which receives what \<open>getKeyLocations\<close>
  throws. \<open>describe\<close> formats the code and name of an error.
\<close>

definition runCheck_catch ::
  "(Error \<Rightarrow> string) \<Rightarrow> Error \<Rightarrow> ConsistencyCheckWorkload \<Rightarrow> ConsistencyCheckWorkload" where
  "runCheck_catch describe e self =
     (if e = transaction_too_old \<or> e = future_version \<or> e = wrong_shard_server
         \<or> e = all_alternatives_failed \<or> e = server_request_queue_full
      then traceEvent SevInfo ''ConsistencyCheck_Retry'' [] self
      else testFailure (describe e) self)"

text \<open>The replies that are present, and whether a reply agrees with a reference.\<close>

definition present :: "GetKeyValuesReply option list \<Rightarrow> GetKeyValuesReply list" where
  "present keyValueFutures = List.map_filter (\<lambda>r. r) keyValueFutures"

definition agrees :: "GetKeyValuesReply \<Rightarrow> GetKeyValuesReply \<Rightarrow> bool" where
  "agrees reference reply = (data reply = data reference \<and> more_flag reply = more_flag reference)"

subsection \<open>The alignment diff of two replies (lines 768-837)\<close>

text \<open>
  The counters and the last representative keys that the branch for differing replies
  declares before its loop. A default \<open>KeyRef\<close> is the empty string.
\<close>

record diff_totals =
  currentUniques :: int
  referenceUniques :: int
  valueMismatches :: int
  matchingKVPairs :: int
  currentUniqueKey :: bytes
  referenceUniqueKey :: bytes
  valueMismatchKey :: bytes

definition no_totals :: diff_totals where
  "no_totals =
     \<lparr> currentUniques = 0, referenceUniques = 0, valueMismatches = 0, matchingKVPairs = 0,
       currentUniqueKey = [], referenceUniqueKey = [], valueMismatchKey = [] \<rparr>"

text \<open>
  The \<open>while\<close> loop over \<open>currentI\<close> and \<open>referenceI\<close>. Keys are compared as
  byte strings, in lexicographic order.
\<close>

function alignment_loop ::
  "KeyValueRef list \<Rightarrow> KeyValueRef list \<Rightarrow> nat \<Rightarrow> nat \<Rightarrow> diff_totals \<Rightarrow> diff_totals" where
  "alignment_loop current reference currentI referenceI totals =
     (if currentI < length current \<or> referenceI < length reference then
        if currentI \<ge> length current then
          alignment_loop current reference currentI (referenceI + 1)
            (totals\<lparr>referenceUniqueKey := fst (reference ! referenceI),
                    referenceUniques := referenceUniques totals + 1\<rparr>)
        else if referenceI \<ge> length reference then
          alignment_loop current reference (currentI + 1) referenceI
            (totals\<lparr>currentUniqueKey := fst (current ! currentI),
                    currentUniques := currentUniques totals + 1\<rparr>)
        else
          (let currentKV = current ! currentI;
               referenceKV = reference ! referenceI
           in if fst currentKV = fst referenceKV then
                alignment_loop current reference (currentI + 1) (referenceI + 1)
                  (if snd currentKV = snd referenceKV
                   then totals\<lparr>matchingKVPairs := matchingKVPairs totals + 1\<rparr>
                   else totals\<lparr>valueMismatchKey := fst currentKV,
                               valueMismatches := valueMismatches totals + 1\<rparr>)
              else if fst currentKV < fst referenceKV then
                alignment_loop current reference (currentI + 1) referenceI
                  (totals\<lparr>currentUniqueKey := fst currentKV,
                          currentUniques := currentUniques totals + 1\<rparr>)
              else
                alignment_loop current reference currentI (referenceI + 1)
                  (totals\<lparr>referenceUniqueKey := fst referenceKV,
                          referenceUniques := referenceUniques totals + 1\<rparr>))
      else totals)"
  by pat_completeness auto
termination
  by (relation "measure (\<lambda>(current, reference, currentI, referenceI, totals).
        (length current - currentI) + (length reference - referenceI))")
     (auto simp: Let_def)

definition alignment_diff :: "KeyValueRef list \<Rightarrow> KeyValueRef list \<Rightarrow> diff_totals" where
  "alignment_diff current reference = alignment_loop current reference 0 0 no_totals"

text \<open>
  The branch taken when the reply of server \<open>j\<close> differs from the reference reply of
  server \<open>firstValidServer\<close>: the diff, one event with its totals, the failure, and
  \<open>return false\<close>. The lines printed in simulation are not part of the log.
\<close>

definition dataInconsistent ::
  "int \<Rightarrow> int \<Rightarrow> GetKeyValuesReply \<Rightarrow> GetKeyValuesReply \<Rightarrow> ConsistencyCheckWorkload \<Rightarrow>
   (int \<times> int, bool) step" where
  "dataInconsistent j firstValidServer current reference self =
     (let totals = alignment_diff (data current) (data reference) in
      Return False
        (testFailure ''Data inconsistent''
          (traceEvent SevInfo ''ConsistencyCheck_DataInconsistent''
             [(Fmt ''Server%dUniques'' j, Num (currentUniques totals)),
              (Fmt ''Server%dUniqueKey'' j, Printable (currentUniqueKey totals)),
              (Fmt ''Server%dUniques'' firstValidServer, Num (referenceUniques totals)),
              (Fmt ''Server%dUniqueKey'' firstValidServer, Printable (referenceUniqueKey totals)),
              (Lit ''ValueMismatches'', Num (valueMismatches totals)),
              (Lit ''ValueMismatchKey'', Printable (valueMismatchKey totals)),
              (Lit ''MatchingKVPairs'', Num (matchingKVPairs totals))]
             self)))"

text \<open>
  The loop over the replies of a page of shard data (lines 723-856). \<open>expectedSize\<close>
  is the serialized size of a reply's rows. The loop falls through with
  \<open>firstValidServer\<close> and \<open>totalReadAmount\<close>. The event for a replica that did
  not answer is logged with \<open>suppressFor(1.0)\<close>; the log here keeps every event.
\<close>

function readRangeResults ::
  "(KeyValueRef list \<Rightarrow> int) \<Rightarrow> bool \<Rightarrow> GetKeyValuesReply option list \<Rightarrow> nat \<Rightarrow> int \<Rightarrow> int \<Rightarrow>
   ConsistencyCheckWorkload \<Rightarrow> (int \<times> int, bool) step" where
  "readRangeResults expectedSize isRelocating keyValueFutures j firstValidServer totalReadAmount self =
     (if j < length keyValueFutures then
        (case keyValueFutures ! j of
           Some current \<Rightarrow>
             (let totalReadAmount' = totalReadAmount + expectedSize (data current) in
              if firstValidServer = - 1 then
                readRangeResults expectedSize isRelocating keyValueFutures (j + 1) (int j)
                  totalReadAmount' self
              else
                (let reference = the (keyValueFutures ! nat firstValidServer) in
                 if data current \<noteq> data reference \<or> more_flag current \<noteq> more_flag reference
                 then dataInconsistent (int j) firstValidServer current reference self
                 else readRangeResults expectedSize isRelocating keyValueFutures (j + 1)
                        firstValidServer totalReadAmount' self))
         | None \<Rightarrow>
             if \<not> isRelocating then
               (let self' = traceEvent SevInfo ''ConsistencyCheck_StorageServerUnavailable'' [] self
                in if performQuiescentChecks self
                   then Return False (testFailure ''Storage server unavailable'' self')
                   else readRangeResults expectedSize isRelocating keyValueFutures (j + 1)
                          firstValidServer totalReadAmount self')
             else readRangeResults expectedSize isRelocating keyValueFutures (j + 1)
                    firstValidServer totalReadAmount self)
      else Next (firstValidServer, totalReadAmount) self)"
  by pat_completeness auto
termination
  by (relation "measure (\<lambda>(expectedSize, isRelocating, keyValueFutures, j, rest).
        length keyValueFutures - j)")
     (auto simp: Let_def)

text \<open>
  The loop of the diff as a recursion over what is left of the two replies, and the
  rows of a reply counted by how the other reply holds their key.
\<close>

fun diff_lists :: "KeyValueRef list \<Rightarrow> KeyValueRef list \<Rightarrow> diff_totals \<Rightarrow> diff_totals" where
  "diff_lists [] [] totals = totals"
| "diff_lists [] (r # rs) totals =
     diff_lists [] rs
       (totals\<lparr>referenceUniqueKey := fst r, referenceUniques := referenceUniques totals + 1\<rparr>)"
| "diff_lists (c # cs) [] totals =
     diff_lists cs []
       (totals\<lparr>currentUniqueKey := fst c, currentUniques := currentUniques totals + 1\<rparr>)"
| "diff_lists (c # cs) (r # rs) totals =
     (if fst c = fst r then
        diff_lists cs rs
          (if snd c = snd r
           then totals\<lparr>matchingKVPairs := matchingKVPairs totals + 1\<rparr>
           else totals\<lparr>valueMismatchKey := fst c, valueMismatches := valueMismatches totals + 1\<rparr>)
      else if fst c < fst r then
        diff_lists cs (r # rs)
          (totals\<lparr>currentUniqueKey := fst c, currentUniques := currentUniques totals + 1\<rparr>)
      else
        diff_lists (c # cs) rs
          (totals\<lparr>referenceUniqueKey := fst r, referenceUniques := referenceUniques totals + 1\<rparr>))"

definition key_ordered :: "KeyValueRef list \<Rightarrow> bool" where
  "key_ordered rows = sorted_wrt (<) (map fst rows)"

definition same_in :: "KeyValueRef list \<Rightarrow> KeyValueRef list \<Rightarrow> KeyValueRef list" where
  "same_in other rows = filter (\<lambda>kv. kv \<in> set other) rows"

definition differing_in :: "KeyValueRef list \<Rightarrow> KeyValueRef list \<Rightarrow> KeyValueRef list" where
  "differing_in other rows = filter (\<lambda>kv. fst kv \<in> fst ` set other \<and> kv \<notin> set other) rows"

definition only_in :: "KeyValueRef list \<Rightarrow> KeyValueRef list \<Rightarrow> KeyValueRef list" where
  "only_in other rows = filter (\<lambda>kv. fst kv \<notin> fst ` set other) rows"

subsection \<open>Growth of the log\<close>

text \<open>
  A later state of the workload extends an earlier one when its log starts with the
  earlier log.
\<close>

definition extends :: "ConsistencyCheckWorkload \<Rightarrow> ConsistencyCheckWorkload \<Rightarrow> bool" where
  "extends before after = (\<exists>evs. trace after = trace before @ evs)"

subsection \<open>The reply loop as a scan\<close>

text \<open>
  The loop of \<open>readLocationResults\<close> read as a scan of the replies not yet looked
  at: \<open>ref\<close> is the reference reply that \<open>firstValidStorageServer\<close> points to.
  \<open>finish\<close> turns the verdict of the scan into what the loop does.
\<close>

datatype verdict = Ok int | Unavailable | Inconsistent | AllFailed

fun scan :: "bool \<Rightarrow> nat \<Rightarrow> int \<Rightarrow> GetKeyValuesReply option \<Rightarrow> GetKeyValuesReply option list \<Rightarrow> verdict" where
  "scan q j fv ref [] = Ok fv"
| "scan q j fv ref (None # rest) =
     (if q then Unavailable
      else if fv < 0 \<and> rest = [] then AllFailed
      else scan q (Suc j) fv ref rest)"
| "scan q j fv ref (Some reply # rest) =
     (if fv < 0 then scan q (Suc j) (int j) (Some reply) rest
      else if \<not> agrees (the ref) reply then Inconsistent
      else scan q (Suc j) fv ref rest)"

fun finish :: "verdict \<Rightarrow> ConsistencyCheckWorkload \<Rightarrow> (int, bool) step" where
  "finish (Ok fv) self = Next fv self"
| "finish Unavailable self =
     Return False (testFailure ''Key server unavailable''
                   (traceEvent SevInfo ''ConsistencyCheck_KeyServerUnavailable'' [] self))"
| "finish Inconsistent self =
     Return False (testFailure ''Key servers inconsistent''
                   (traceEvent SevInfo ''ConsistencyCheck_InconsistentKeyServers'' [] self))"
| "finish AllFailed self = Throw all_alternatives_failed self"

text \<open>
  The verdict of a whole page, from the start of the loop.
\<close>

definition page_verdict :: "GetKeyValuesReply option list \<Rightarrow> ConsistencyCheckWorkload \<Rightarrow> verdict" where
  "page_verdict futs self = scan (performQuiescentChecks self) 0 (- 1) None futs"

subsection \<open>Example inputs\<close>

text \<open>A test specification that asks for the quiescent checks and leaves the rest at its defaults.\<close>

definition quiescent_options :: workload_options where
  "quiescent_options =
     \<lparr> opt_performQuiescentChecks = Some True, opt_quiescentWaitTimeout = None,
       opt_distributed = None, opt_shardSampleFactor = None, opt_failureIsError = None,
       opt_rateLimit = None, opt_shuffleShards = None, opt_indefinite = None \<rparr>"

text \<open>
  The reals as an arithmetic for \<open>double_ops\<close>, to run the statistical check on
  concrete numbers.
\<close>

definition real_ops :: "real double_ops" where
  "real_ops = \<lparr> d_sqrt = sqrt, d_times = (*), d_less = (<), d_of_int = of_int \<rparr>"

text \<open>
  A storage server with a port and an address made from a number.
\<close>

definition example_server :: "nat \<Rightarrow> StorageServerInterface" where
  "example_server n = \<lparr> id_of = (0, of_nat n), address = (of_nat n, 4500) \<rparr>"

text \<open>
  Two replies that hold the same key with different values.
\<close>

definition reply_a :: GetKeyValuesReply where
  "reply_a = \<lparr> data = [([107, 49], [118, 97])], more_flag = False \<rparr>"

definition reply_b :: GetKeyValuesReply where
  "reply_b = \<lparr> data = [([107, 49], [118, 98])], more_flag = False \<rparr>"

text \<open>
  A test specification without the quiescent checks.
\<close>

definition non_quiescent_options :: workload_options where
  "non_quiescent_options = quiescent_options \<lparr> opt_performQuiescentChecks := None \<rparr>"

text \<open>
  Two key-ordered replies: one row they share, one key with two values, and one key
  of its own each.
\<close>

definition rows_current :: "KeyValueRef list" where
  "rows_current = [([107, 49], [118, 97]), ([107, 50], [118]), ([107, 52], [118])]"

definition rows_reference :: "KeyValueRef list" where
  "rows_reference = [([107, 49], [118, 98]), ([107, 50], [118]), ([107, 51], [118])]"

section \<open>Basic facts\<close>

lemma success_traceEvent [simp]: "success (traceEvent sv nm ds self) = success self"
  by (simp add: traceEvent_def)

lemma success_testFailure [simp]: "success (testFailure message self) = False"
  by (simp add: testFailure_def traceEvent_def)

lemma trace_traceEvent [simp]:
  "trace (traceEvent sv nm ds self) = trace self @ [TraceEvent sv nm ds]"
  by (simp add: traceEvent_def)

lemma failures_append [simp]: "failures (xs @ ys) = failures xs @ failures ys"
  by (simp add: failures_def List.map_filter_def)

lemma failures_Nil [simp]: "failures [] = []"
  by (simp add: failures_def List.map_filter_def)

lemma failures_trace_testFailure [simp]:
  "failures (trace (testFailure message self)) = failures (trace self) @ [message]"
  by (simp add: testFailure_def failures_def List.map_filter_def)

lemma success_mutate: "success (mutate self m) = (success self \<and> \<not> is_failure m)"
  by (cases m) (simp_all add: is_failure_def)

lemma success_foldl_mutate:
  "success (foldl mutate self ms) = (success self \<and> list_all (\<lambda>m. \<not> is_failure m) ms)"
  by (induction ms arbitrary: self) (auto simp: success_mutate)

lemma new_failures_refl [simp]: "new_failures self self = []"
  by (simp add: new_failures_def new_events_def)

lemma new_events_traceEvent [simp]:
  "new_events self (traceEvent sv nm ds self') = new_events self self' @ [TraceEvent sv nm ds]" if "length (trace self) \<le> length (trace self')"
  using that by (simp add: new_events_def)

lemma trace_testFailure_len [simp]: "length (trace (testFailure m self)) = Suc (length (trace self))"
  by (simp add: testFailure_def)

lemma trace_testFailure:
  "trace (testFailure m self) = trace self @
     [TraceEvent (if failureIsError self then SevError else SevWarn) ''TestFailure''
       [(Lit ''Workload'',
           Text (if performQuiescentChecks self then ''QuiescentCheck'' else ''ConsistencyCheck'')),
        (Lit ''Reason'', Text (''Consistency check: '' @ m))]]"
  by (simp add: testFailure_def)

lemma new_failures_testFailure:
  "length (trace self) \<le> length (trace self') \<Longrightarrow>
   new_failures self (testFailure m self') = new_failures self self' @ [m]"
  by (simp add: new_failures_def new_events_def trace_testFailure failures_def List.map_filter_def)

lemma failure_of_plain: "nm \<noteq> ''TestFailure'' \<Longrightarrow> failure_of (TraceEvent sv nm ds) = None"
  by simp

lemma new_failures_traceEvent:
  "length (trace self) \<le> length (trace self') \<Longrightarrow> nm \<noteq> ''TestFailure'' \<Longrightarrow>
   new_failures self (traceEvent sv nm ds self') = new_failures self self'"
  by (simp add: new_failures_def new_events_def failures_def List.map_filter_def)

lemma new_workload_fields [simp]:
  "clientId (new_workload options cid ccount) = cid"
  "clientCount (new_workload options cid ccount) = ccount"
  "firstClient (new_workload options cid ccount) = (cid = 0)"
  "performQuiescentChecks (new_workload options cid ccount)
     = getOption (opt_performQuiescentChecks options) False"
  "distributed (new_workload options cid ccount) = getOption (opt_distributed options) True"
  "failureIsError (new_workload options cid ccount) = getOption (opt_failureIsError options) False"
  "success (new_workload options cid ccount) = True"
  "trace (new_workload options cid ccount) = []"
  by (simp_all add: new_workload_def)

lemma quiescent_options_fields [simp]:
  "getOption (opt_performQuiescentChecks quiescent_options) False = True"
  "getOption (opt_distributed quiescent_options) True = True"
  "getOption (opt_failureIsError quiescent_options) False = False"
  by (simp_all add: quiescent_options_def getOption_def)

section \<open>The verdict is sticky\<close>

text \<open>
  C8. The flag \<open>success\<close> starts true, every \<open>testFailure\<close> clears it, and no write
  to the workload sets it again: after any sequence of writes the verdict of \<open>check\<close>
  is true exactly when the sequence records no failure, so a verdict that was false
  stays false whatever follows.
\<close>

theorem success_sticky_false:
  "check (new_workload options cid ccount) = True
   \<and> check (testFailure message self) = False
   \<and> check (run_mutations (new_workload options cid ccount) ms)
       = list_all (\<lambda>m. \<not> is_failure m) ms
   \<and> (check (run_mutations self ms) = False \<longrightarrow>
        check (run_mutations self (ms @ ms')) = False)"
  by (auto simp: check_def run_mutations_def success_foldl_mutate new_workload_def)

theorem success_sticky_false_witness:
  "check (run_mutations (new_workload
       \<lparr> opt_performQuiescentChecks = Some True, opt_quiescentWaitTimeout = None,
         opt_distributed = None, opt_shardSampleFactor = None, opt_failureIsError = None,
         opt_rateLimit = None, opt_shuffleShards = None, opt_indefinite = Some True \<rparr> 0 1)
       [TestFailure ''Invalid team size'']) = False
   \<and> check (run_mutations (new_workload
       \<lparr> opt_performQuiescentChecks = Some True, opt_quiescentWaitTimeout = None,
         opt_distributed = None, opt_shardSampleFactor = None, opt_failureIsError = None,
         opt_rateLimit = None, opt_shuffleShards = None, opt_indefinite = Some True \<rparr> 0 1)
       ([TestFailure ''Invalid team size''] @ [NextRepetition, Trace SevInfo ''ConsistencyCheck'' []]))
     = False"
  using success_sticky_false [of
       "\<lparr> opt_performQuiescentChecks = Some True, opt_quiescentWaitTimeout = None,
         opt_distributed = None, opt_shardSampleFactor = None, opt_failureIsError = None,
         opt_rateLimit = None, opt_shuffleShards = None, opt_indefinite = Some True \<rparr>"
       0 1 "''Invalid team size''" "new_workload
       \<lparr> opt_performQuiescentChecks = Some True, opt_quiescentWaitTimeout = None,
         opt_distributed = None, opt_shardSampleFactor = None, opt_failureIsError = None,
         opt_rateLimit = None, opt_shuffleShards = None, opt_indefinite = Some True \<rparr> 0 1"
       "[TestFailure ''Invalid team size'']"
       "[NextRepetition, Trace SevInfo ''ConsistencyCheck'' []]"]
  by (simp add: is_failure_def)


section \<open>getVersion\<close>

lemma getVersion_skips_errors:
  "getVersion retryable (map Inl errors @ later) = getVersion retryable later"
  by (induction errors) simp_all

lemma getVersion_not_Inl: "getVersion retryable replies \<noteq> Some (Inl e)"
  by (induction replies) (auto split: sum.splits)

text \<open>
  C9. \<open>getVersion\<close> never throws to its caller: whatever errors the requests for a
  read version raise, retried by the client or not, the handler swallows them and the
  loop goes on with a fresh transaction. It returns the version of the first request
  that succeeds, and after errors only it is still running.
\<close>

theorem getVersion_never_throws:
  "getVersion retryable replies \<noteq> Some (Inl e)
   \<and> getVersion retryable (map Inl errors @ Inr version # later) = Some (Inr version)
   \<and> getVersion retryable (map Inl errors) = None"
  using getVersion_skips_errors [of retryable errors "[]"]
  by (simp add: getVersion_not_Inl getVersion_skips_errors)

lemma getDatabaseSize_propagates:
  "\<not> retryable e \<Longrightarrow> getDatabaseSize retryable (Inl e # later) = Some (Inl e)"
  by (simp add: onError_def)

section \<open>Work partitioning\<close>

lemma int32_id: "- (2 ^ 31) \<le> x \<Longrightarrow> x < 2 ^ 31 \<Longrightarrow> int32 x = x"
  by (simp add: int32_def)

lemma int32_range: "- (2 ^ 31) \<le> int32 x \<and> int32 x < 2 ^ 31"
  by (simp add: int32_def)

lemma negative_not_in_range:
  "- (2 ^ 31) \<le> i \<Longrightarrow> i < 0 \<Longrightarrow> n < 2 ^ 31 \<Longrightarrow> \<not> in_range i n"
proof -
  assume a: "- (2 ^ 31) \<le> i" "i < 0" "n < 2 ^ 31"
  have "(i + 2 ^ 64) mod 2 ^ 64 = i + 2 ^ 64"
    using a by (intro mod_pos_pos_trivial) auto
  then have "i mod 2 ^ 64 = i + 2 ^ 64"
    by simp
  then show ?thesis using a by (simp add: in_range_def)
qed

lemma in_range_nonneg: "0 \<le> i \<Longrightarrow> i < 2 ^ 31 \<Longrightarrow> in_range i n = (i < int n)"
  by (simp add: in_range_def)


lemma shard_loop_exit: "\<not> in_range i n \<Longrightarrow> shard_loop fuel i inc n = Some []"
  by simp

lemma shard_loop_turn:
  "in_range i n \<Longrightarrow>
   shard_loop (Suc fuel) i inc n = map_option (Cons i) (shard_loop fuel (int32 (i + inc)) inc n)"
  by simp

lemma shard_loop_out_of_fuel: "in_range i n \<Longrightarrow> shard_loop 0 i inc n = None"
  by simp

declare shard_loop.simps [simp del]

lemma shard_loop_returns:
  "1 \<le> inc \<Longrightarrow> inc < 2 ^ 31 \<Longrightarrow> n < 2 ^ 31 \<Longrightarrow> - (2 ^ 31) \<le> i \<Longrightarrow> i < 2 ^ 31 \<Longrightarrow>
   i < 0 \<or> int n \<le> int fuel + i \<Longrightarrow>
   \<exists>visited. shard_loop fuel i inc n = Some visited
      \<and> sorted_wrt (<) visited \<and> (\<forall>v\<in>set visited. i \<le> v \<and> v < int n)"
proof (induction fuel arbitrary: i)
  case 0
  then have "\<not> in_range i n"
    using negative_not_in_range [of i n] in_range_nonneg [of i n] by auto
  then show ?case by (simp add: shard_loop_exit)
next
  case (Suc fuel)
  show ?case
  proof (cases "in_range i n")
    case False
    then show ?thesis by (simp add: shard_loop_exit)
  next
    case True
    with Suc.prems negative_not_in_range [of i n] have i0: "0 \<le> i" by fastforce
    with True Suc.prems have iN: "i < int n" by (simp add: in_range_nonneg)
    let ?j = "int32 (i + inc)"
    have jr: "- (2 ^ 31) \<le> ?j" "?j < 2 ^ 31" using int32_range [of "i + inc"] by auto
    have jcases: "?j < 0 \<or> ?j = i + inc"
    proof (cases "i + inc < 2 ^ 31")
      case True
      then show ?thesis using i0 Suc.prems int32_id [of "i + inc"] by auto
    next
      case False
      then have "(i + inc + 2 ^ 31 - 2 ^ 32) mod 2 ^ 32 = i + inc + 2 ^ 31 - 2 ^ 32"
        using i0 iN Suc.prems by (intro mod_pos_pos_trivial) auto
      moreover have "(i + inc + 2 ^ 31 - 2 ^ 32) mod 2 ^ 32 = (i + inc + 2 ^ 31) mod (2 ^ 32 :: int)"
        by (rule minus_mod_self2)
      ultimately have "int32 (i + inc) = i + inc - 2 ^ 32"
        by (simp add: int32_def)
      then show ?thesis using iN Suc.prems by auto
    qed
    then have "?j < 0 \<or> int n \<le> int fuel + ?j"
      using Suc.prems i0 by auto
    from Suc.IH [OF Suc.prems(1-3) jr this]
    obtain visited where v: "shard_loop fuel ?j inc n = Some visited"
      "sorted_wrt (<) visited" "\<forall>v\<in>set visited. ?j \<le> v \<and> v < int n" by blast
    have "visited \<noteq> [] \<Longrightarrow> ?j = i + inc"
    proof -
      assume ne: "visited \<noteq> []"
      have "\<not> ?j < 0"
      proof
        assume "?j < 0"
        then have "shard_loop fuel ?j inc n = Some []"
          using jr Suc.prems(3) by (intro shard_loop_exit negative_not_in_range) auto
        then show False using v(1) ne by simp
      qed
      then show ?thesis using jcases by simp
    qed
    then have above: "\<forall>v\<in>set visited. i < v" using v(3) Suc.prems(1) by fastforce
    have "shard_loop (Suc fuel) i inc n = Some (i # visited)"
      using True v(1) by (simp add: shard_loop_turn)
    moreover have "sorted_wrt (<) (i # visited)" using above v(2) by simp
    moreover have "\<forall>v\<in>set (i # visited). i \<le> v \<and> v < int n"
      using above v(3) iN by auto
    ultimately show ?thesis by blast
  qed
qed

lemma ssf_ge_1: "1 \<le> shardSampleFactor (new_workload options cid ccount)"
  by (simp add: new_workload_def)

text \<open>
  C10 (amended). For every configured value of the option, zero and negative ones
  too, the effective \<open>shardSampleFactor\<close> is the maximum of that value and 1. For a
  client \<open>cid\<close> of \<open>ccount\<close> whose two products fit a 32-bit \<open>int\<close>, the first
  shard index is \<open>cid * (shardSampleFactor + 1)\<close>, which is 0 for the first client
  and at least \<open>2 * cid\<close> in general; the increment is 1 for the first client or a
  run that is not distributed and \<open>clientCount * shardSampleFactor\<close> otherwise, at
  least 1 in both cases; and the shard loop over \<open>n\<close> ranges ends within \<open>n\<close> turns,
  visiting strictly increasing indices.
\<close>

theorem shardSampleFactor_at_least_one:
  assumes self: "self = new_workload options cid ccount"
    and cid: "0 \<le> cid" "cid < ccount"
    and fits: "ccount * shardSampleFactor self < 2 ^ 31" "cid * (shardSampleFactor self + 1) < 2 ^ 31"
    and n: "n < 2 ^ 31"
  shows "shardSampleFactor self = max (getOption (opt_shardSampleFactor options) 1) 1
     \<and> 1 \<le> shardSampleFactor self
     \<and> first_index self = cid * (shardSampleFactor self + 1)
     \<and> 2 * cid \<le> first_index self
     \<and> increment self = (if distributed self \<and> cid \<noteq> 0 then ccount * shardSampleFactor self else 1)
     \<and> 1 \<le> increment self
     \<and> (\<exists>visited. shard_loop n (first_index self) (increment self) n = Some visited
           \<and> sorted_wrt (<) visited)"
proof -
  have s1: "1 \<le> shardSampleFactor self" using self ssf_ge_1 by simp
  have fc: "firstClient self = (cid = 0)" "clientId self = cid" "clientCount self = ccount"
    using self by (simp_all add: new_workload_def)
  have fi: "first_index self = cid * (shardSampleFactor self + 1)"
  proof (cases "cid = 0")
    case True
    then show ?thesis by (simp add: first_index_def fc int32_def)
  next
    case False
    then have c1: "1 \<le> cid" using cid by simp
    have "shardSampleFactor self + 1 \<le> cid * (shardSampleFactor self + 1)"
      using c1 s1 by (simp add: mult_le_cancel_right1) 
    then have "shardSampleFactor self + 1 < 2 ^ 31"
      using fits(2) by linarith
    then have "int32 (shardSampleFactor self + 1) = shardSampleFactor self + 1"
      using s1 by (intro int32_id) linarith+
    moreover have "0 \<le> cid * (shardSampleFactor self + 1)" using c1 s1 by simp
    ultimately show ?thesis using fits by (simp add: first_index_def fc int32_id)
  qed
  have lo: "2 * cid \<le> first_index self"
  proof -
    have "cid * 2 \<le> cid * (shardSampleFactor self + 1)"
      using cid s1 by (intro mult_left_mono) auto
    then show ?thesis using fi by simp
  qed
  have pos: "1 \<le> ccount * shardSampleFactor self"
  proof -
    have "1 * 1 \<le> ccount * shardSampleFactor self"
      using cid s1 by (intro mult_mono) auto
    then show ?thesis by simp
  qed
  have inc: "increment self = (if distributed self \<and> cid \<noteq> 0 then ccount * shardSampleFactor self else 1)"
    using pos fits by (simp add: increment_def effectiveClientCount_def fc int32_id)
  have inc1: "1 \<le> increment self" using inc pos by simp
  have incr: "increment self < 2 ^ 31" using inc fits by simp
  have "first_index self < 2 ^ 31" "- (2 ^ 31) \<le> first_index self"
    using fi fits lo cid by auto
  then have "\<exists>visited. shard_loop n (first_index self) (increment self) n = Some visited
      \<and> sorted_wrt (<) visited \<and> (\<forall>v\<in>set visited. first_index self \<le> v \<and> v < int n)"
    using lo cid by (intro shard_loop_returns [OF inc1 incr n]) auto
  then have loop: "\<exists>visited. shard_loop n (first_index self) (increment self) n = Some visited
      \<and> sorted_wrt (<) visited" by blast
  have ssf: "shardSampleFactor self = max (getOption (opt_shardSampleFactor options) 1) 1"
    using self by (simp add: new_workload_def)
  show ?thesis
    using ssf s1 fi lo inc inc1 loop by blast
qed


theorem shardSampleFactor_at_least_one_witness:
  "shardSampleFactor (new_workload (quiescent_options\<lparr>opt_shardSampleFactor := Some (- 5)\<rparr>) 1 2) = 1
   \<and> first_index (new_workload (quiescent_options\<lparr>opt_shardSampleFactor := Some (- 5)\<rparr>) 1 2) = 2
   \<and> increment (new_workload (quiescent_options\<lparr>opt_shardSampleFactor := Some (- 5)\<rparr>) 1 2) = 2
   \<and> (\<exists>visited. shard_loop 7
          (first_index (new_workload (quiescent_options\<lparr>opt_shardSampleFactor := Some (- 5)\<rparr>) 1 2))
          (increment (new_workload (quiescent_options\<lparr>opt_shardSampleFactor := Some (- 5)\<rparr>) 1 2)) 7
        = Some visited \<and> sorted_wrt (<) visited)"
  using shardSampleFactor_at_least_one
    [of "new_workload (quiescent_options\<lparr>opt_shardSampleFactor := Some (- 5)\<rparr>) 1 2"
        "quiescent_options\<lparr>opt_shardSampleFactor := Some (- 5)\<rparr>" 1 2 7]
  by (simp add: new_workload_def quiescent_options_def getOption_def first_index_def
      increment_def effectiveClientCount_def int32_def)

text \<open>
  The first client starts at shard index 0, so the first index is not always at
  least 1.
\<close>

theorem first_index_counterexample:
  "\<not> 1 \<le> first_index (new_workload (quiescent_options\<lparr>opt_shardSampleFactor := Some 0\<rparr>) 0 2)"
  by (simp add: first_index_def new_workload_def int32_def)

section \<open>The team-size check\<close>

lemma checkTeamSize_fails:
  assumes "firstClient self" "performQuiescentChecks self" "int (length src) \<noteq> ts"
  shows "checkTeamSize self ts src dest =
     Return False (testFailure ''Invalid team size''
               (traceEvent SevInfo ''ConsistencyCheck_InvalidTeamSize''
                  [(Lit ''teamSize'', Num (int (length src))),
                   (Lit ''desiredTeamSize'', Num ts)] self))"
  using assms by (simp add: checkTeamSize_def)

lemma checkTeamSize_passes:
  assumes "\<not> (firstClient self \<and> performQuiescentChecks self \<and> int (length src) \<noteq> ts)"
  shows "checkTeamSize self ts src dest = Next (dest \<noteq> [], if dest \<noteq> [] then dest else src) self"
  using assms by (auto simp add: checkTeamSize_def)

text \<open>
  C1 (amended). In a quiescent run, for every shard the first client processes,
  relocating or not, a source team whose size differs from \<open>storageTeamSize\<close>
  records the failure "Invalid team size" and makes \<open>checkDataConsistency\<close> return
  false; in every other case the block records nothing and goes on with the
  destination team of a relocating shard and the source team otherwise.
\<close>

theorem invalid_team_size_any_shard:
  "(firstClient self \<and> performQuiescentChecks self \<and> int (length src) \<noteq> ts \<longrightarrow>
      returned (checkTeamSize self ts src dest) = Some False
      \<and> success (state_of (checkTeamSize self ts src dest)) = False
      \<and> new_failures self (state_of (checkTeamSize self ts src dest)) = [''Invalid team size''])
   \<and> (\<not> (firstClient self \<and> performQuiescentChecks self \<and> int (length src) \<noteq> ts) \<longrightarrow>
      checkTeamSize self ts src dest = Next (dest \<noteq> [], if dest \<noteq> [] then dest else src) self)"
proof (intro conjI impI)
  assume a: "firstClient self \<and> performQuiescentChecks self \<and> int (length src) \<noteq> ts"
  note f = checkTeamSize_fails [of self src ts dest]
  show "returned (checkTeamSize self ts src dest) = Some False" using a f by simp
  show "success (state_of (checkTeamSize self ts src dest)) = False" using a f by simp
  show "new_failures self (state_of (checkTeamSize self ts src dest)) = [''Invalid team size'']"
    using a f by (simp add: new_failures_testFailure new_failures_traceEvent)
next
  assume "\<not> (firstClient self \<and> performQuiescentChecks self \<and> int (length src) \<noteq> ts)"
  then show "checkTeamSize self ts src dest = Next (dest \<noteq> [], if dest \<noteq> [] then dest else src) self"
    by (rule checkTeamSize_passes)
qed

theorem invalid_team_size_any_shard_witness:
  "returned (checkTeamSize (new_workload quiescent_options 0 1) 3 [(0, 1), (0, 2)] []) = Some False
   \<and> new_failures (new_workload quiescent_options 0 1)
        (state_of (checkTeamSize (new_workload quiescent_options 0 1) 3 [(0, 1), (0, 2)] []))
      = [''Invalid team size'']
   \<and> checkTeamSize (new_workload quiescent_options 0 1) 2 [(0, 1), (0, 2)] []
      = Next (False, [(0, 1), (0, 2)]) (new_workload quiescent_options 0 1)"
  using invalid_team_size_any_shard [of "new_workload quiescent_options 0 1" "[(0, 1), (0, 2)]" 3 "[]"]
    invalid_team_size_any_shard [of "new_workload quiescent_options 0 1" "[(0, 1), (0, 2)]" 2 "[]"]
  by (simp add: new_workload_def quiescent_options_def getOption_def)

text \<open>
  A relocating shard is not exempt: with a destination team of the configured size 3
  and a source team of size 1, the check fails with "Invalid team size".
\<close>

theorem relocating_shard_not_exempt_counterexample:
  "returned (checkTeamSize (new_workload quiescent_options 0 1) 3 [(0, 1)] [(0, 2), (0, 3), (0, 4)])
     = Some False
   \<and> new_failures (new_workload quiescent_options 0 1)
        (state_of (checkTeamSize (new_workload quiescent_options 0 1) 3 [(0, 1)] [(0, 2), (0, 3), (0, 4)]))
      = [''Invalid team size'']"
  by (simp add: checkTeamSize_def new_workload_def quiescent_options_def getOption_def
      new_failures_testFailure new_failures_traceEvent)


section \<open>The estimator check\<close>

lemma estimate_loop_all_match:
  "list_all (matches_sample sampledBytes) ests \<Longrightarrow>
   estimate_loop ests sampledBytes hv self = (hv, self)"
  by (induction ests) (auto simp: matches_sample_def)

lemma estimate_loop_first_miss:
  "list_all (matches_sample sampledBytes) good \<Longrightarrow> \<not> matches_sample sampledBytes e \<Longrightarrow>
   estimate_loop (good @ e # later) sampledBytes hv self =
     (False,
      if e \<ge> 0 then
         testFailure ''Storage servers had incorrect sampled estimate''
           (traceEvent SevInfo ''ConsistencyCheck_IncorrectEstimate''
              [(Lit ''EstimatedBytes'', Num e), (Lit ''CorrectSampledBytes'', Num sampledBytes)]
              self)
      else testFailure ''Could not get storage metrics from server'' self)"
  by (induction good) (auto simp: matches_sample_def)

text \<open>
  C5. In a quiescent run the estimates are walked in order. At the first estimate
  that is negative or differs from the recomputed \<open>sampledBytes\<close>, one failure is
  recorded ("Storage servers had incorrect sampled estimate" for a non-negative
  estimate, "Could not get storage metrics from server" for a negative one),
  \<open>hasValidEstimate\<close> becomes false, and the estimates after it are not looked at.
  When every estimate matches, nothing is recorded and \<open>hasValidEstimate\<close> says
  whether there was an estimate at all.
\<close>

theorem estimator_check_first_miss:
  assumes "performQuiescentChecks self"
  shows "(list_all (matches_sample sampledBytes) good \<and> \<not> matches_sample sampledBytes e \<longrightarrow>
            fst (checkEstimates self (good @ e # later) sampledBytes) = False
          \<and> success (snd (checkEstimates self (good @ e # later) sampledBytes)) = False
          \<and> new_failures self (snd (checkEstimates self (good @ e # later) sampledBytes)) =
              [if e \<ge> 0 then ''Storage servers had incorrect sampled estimate''
               else ''Could not get storage metrics from server'']
          \<and> checkEstimates self (good @ e # later) sampledBytes
              = checkEstimates self (good @ [e]) sampledBytes)
       \<and> (list_all (matches_sample sampledBytes) ests \<longrightarrow>
            checkEstimates self ests sampledBytes = (ests \<noteq> [], self))"
proof (intro conjI impI)
  assume a: "list_all (matches_sample sampledBytes) good \<and> \<not> matches_sample sampledBytes e"
  note m = estimate_loop_first_miss [of sampledBytes good e _ _ self]
  show "fst (checkEstimates self (good @ e # later) sampledBytes) = False"
    using a assms by (simp add: checkEstimates_def m)
  show "success (snd (checkEstimates self (good @ e # later) sampledBytes)) = False"
    using a assms by (simp add: checkEstimates_def m)
  show "new_failures self (snd (checkEstimates self (good @ e # later) sampledBytes)) =
              [if e \<ge> 0 then ''Storage servers had incorrect sampled estimate''
               else ''Could not get storage metrics from server'']"
    using a assms
    by (simp add: checkEstimates_def m new_failures_testFailure new_failures_traceEvent)
  show "checkEstimates self (good @ e # later) sampledBytes
              = checkEstimates self (good @ [e]) sampledBytes"
    using a assms by (simp add: checkEstimates_def m)
next
  assume "list_all (matches_sample sampledBytes) ests"
  then show "checkEstimates self ests sampledBytes = (ests \<noteq> [], self)"
    using assms by (simp add: checkEstimates_def estimate_loop_all_match)
qed

theorem estimator_check_first_miss_witness:
  "fst (checkEstimates (new_workload quiescent_options 0 1) ([1200] @ 1000 # [- 1]) 1200) = False
   \<and> new_failures (new_workload quiescent_options 0 1)
       (snd (checkEstimates (new_workload quiescent_options 0 1) ([1200] @ 1000 # [- 1]) 1200))
       = [''Storage servers had incorrect sampled estimate'']
   \<and> checkEstimates (new_workload quiescent_options 0 1) [1200, 1200] 1200
       = (True, new_workload quiescent_options 0 1)"
  using estimator_check_first_miss
     [of "new_workload quiescent_options 0 1" 1200 "[1200]" 1000 "[- 1]" "[1200, 1200]"]
  by (simp add: matches_sample_def checkEstimates_def new_failures_testFailure
      new_failures_traceEvent)

section \<open>The statistical size check\<close>

lemma estimateError_exact:
  "\<bar>shardBytes - sampledBytes\<bar> < 2 ^ 31 \<Longrightarrow>
   estimateError shardBytes sampledBytes = \<bar>shardBytes - sampledBytes\<bar>"
proof -
  assume a: "\<bar>shardBytes - sampledBytes\<bar> < 2 ^ 31"
  then have "int32 (shardBytes - sampledBytes) = shardBytes - sampledBytes"
    by (intro int32_id) auto
  moreover have "int32 \<bar>shardBytes - sampledBytes\<bar> = \<bar>shardBytes - sampledBytes\<bar>"
    using a by (intro int32_id) auto
  ultimately show ?thesis by (simp add: estimateError_def)
qed

text \<open>
  C6. The statistical check records its failure exactly when \<open>sampledKeys > 30\<close>
  and \<open>estimateError > 7 * sqrt(shardVariance)\<close>, in the floating-point arithmetic
  given; a shard with 30 sampled keys or fewer leaves the workload as it was; the
  block always falls through to the rest of the shard loop; and \<open>estimateError\<close>
  is the absolute difference of \<open>shardBytes\<close> and \<open>sampledBytes\<close> whenever that
  fits an \<open>int\<close>.
\<close>

theorem shard_estimate_check:
  "continues (checkShardEstimate ops self shardKeys sampledKeys shardBytes sampledBytes shardVariance)
      = Some ()
   \<and> (new_failures self
        (state_of (checkShardEstimate ops self shardKeys sampledKeys shardBytes sampledBytes shardVariance))
       = (if sampledKeys > 30
             \<and> d_less ops (d_times ops (d_of_int ops 7) (d_sqrt ops shardVariance))
                  (d_of_int ops (estimateError shardBytes sampledBytes))
          then [''Shard size is more than 7.000000 std dev from estimate''] else []))
   \<and> (success (state_of (checkShardEstimate ops self shardKeys sampledKeys shardBytes sampledBytes shardVariance))
       = (success self
          \<and> \<not> (sampledKeys > 30
             \<and> d_less ops (d_times ops (d_of_int ops 7) (d_sqrt ops shardVariance))
                  (d_of_int ops (estimateError shardBytes sampledBytes)))))
   \<and> (sampledKeys \<le> 30 \<longrightarrow>
        checkShardEstimate ops self shardKeys sampledKeys shardBytes sampledBytes shardVariance
          = Next () self)
   \<and> (\<bar>shardBytes - sampledBytes\<bar> < 2 ^ 31 \<longrightarrow>
        estimateError shardBytes sampledBytes = \<bar>shardBytes - sampledBytes\<bar>)"
  by (simp add: checkShardEstimate_def too_inaccurate_def estimateError_exact
      new_failures_testFailure new_failures_traceEvent)

theorem shard_estimate_check_witness:
  "new_failures (new_workload quiescent_options 0 1)
     (state_of (checkShardEstimate real_ops (new_workload quiescent_options 0 1) 40 31 5000 4000 4)) =
     [''Shard size is more than 7.000000 std dev from estimate'']
   \<and> checkShardEstimate real_ops (new_workload quiescent_options 0 1) 40 30 5000 4000 4
     = Next () (new_workload quiescent_options 0 1)
   \<and> estimateError 4000 5000 = 1000"
  using shard_estimate_check [of real_ops "new_workload quiescent_options 0 1" 40 31 5000 4000 4]
    shard_estimate_check [of real_ops "new_workload quiescent_options 0 1" 40 30 5000 4000 4]
    shard_estimate_check [of real_ops "new_workload quiescent_options 0 1" 40 30 4000 5000 4]
  by (simp add: real_ops_def)

section \<open>The undesirable-server check and the storage queue\<close>

lemma extends_refl [simp]: "extends self self"
  by (simp add: extends_def)

lemma extends_trans: "extends a b \<Longrightarrow> extends b c \<Longrightarrow> extends a c"
  by (auto simp: extends_def)

lemma extends_traceEvent [simp]: "extends a b \<Longrightarrow> extends a (traceEvent sv nm ds b)"
  by (auto simp: extends_def)

lemma extends_testFailure [simp]: "extends a b \<Longrightarrow> extends a (testFailure m b)"
  by (auto simp: extends_def trace_testFailure)

lemma extends_length: "extends a b \<Longrightarrow> length (trace a) \<le> length (trace b)"
  by (auto simp: extends_def)

lemma new_failures_trans:
  "extends a b \<Longrightarrow> extends b c \<Longrightarrow> new_failures a c = new_failures a b @ new_failures b c"
  by (auto simp: extends_def new_failures_def new_events_def)

lemma new_failures_testFailure_ext:
  "extends a b \<Longrightarrow> new_failures a (testFailure m b) = new_failures a b @ [m]"
  by (simp add: new_failures_testFailure extends_length)

lemma new_failures_traceEvent_ext:
  "extends a b \<Longrightarrow> nm \<noteq> ''TestFailure'' \<Longrightarrow>
   new_failures a (traceEvent sv nm ds b) = new_failures a b"
  by (simp add: new_failures_traceEvent extends_length)

lemma ex_less_shift:
  "(\<exists>k < Suc n. P (i + k)) = (P i \<or> (\<exists>k < n. P (Suc i + k)))"
  by (auto simp: less_Suc_eq_0_disj)

lemma undesirable_loop_iff:
  "fst (undesirable_loop typeReply T i servers self) =
     ((\<exists>k < length servers. typeReply (i + k) \<noteq> None \<and> typeReply (i + k) \<noteq> Some T)
      \<or> \<not> distinct (map address servers))"
proof (induction servers arbitrary: i self)
  case Nil
  then show ?case by simp
next
  case (Cons server later)
  have sh: "(\<exists>k < length (server # later). typeReply (i + k) \<noteq> None \<and> typeReply (i + k) \<noteq> Some T)
    = ((typeReply i \<noteq> None \<and> typeReply i \<noteq> Some T)
       \<or> (\<exists>k < length later. typeReply (Suc i + k) \<noteq> None \<and> typeReply (Suc i + k) \<noteq> Some T))"
    using ex_less_shift [of "length later" "\<lambda>k. typeReply k \<noteq> None \<and> typeReply k \<noteq> Some T" i]
    by simp
  have fnd: "(find (\<lambda>other. address server = address other) later = None)
     = (address server \<notin> set (map address later))"
    by (auto simp: find_None_iff)
  show ?case
    unfolding sh
    by (cases "typeReply i"; cases "find (\<lambda>other. address server = address other) later")
       (use fnd in \<open>auto simp: Cons.IH Let_def\<close>)
qed

lemma undesirable_loop_extends_from:
  "extends a self \<Longrightarrow> extends a (snd (undesirable_loop typeReply T i servers self))"
  by (induction servers arbitrary: i self) (auto simp: Let_def split: option.splits)

lemma undesirable_loop_extends: "extends self (snd (undesirable_loop typeReply T i servers self))"
  by (rule undesirable_loop_extends_from) simp

lemma undesirable_loop_failures:
  "set (new_failures self (snd (undesirable_loop typeReply T i servers self)))
     \<subseteq> {''Storage server unavailable'', ''Storage server has wrong key-value store type'',
         ''Multiple storage servers have the same address''}"
proof (induction servers arbitrary: i self)
  case Nil
  then show ?case by simp
next
  case (Cons server later)
  let ?u = "testFailure ''Storage server unavailable''
                        (traceEvent SevInfo ''ConsistencyCheck_ServerUnavailable'' [] self)"
  have eu: "extends self ?u" by simp
  have nu: "new_failures self ?u = [''Storage server unavailable'']"
    by (simp add: new_failures_testFailure_ext new_failures_traceEvent_ext)
  show ?case
  proof (cases "typeReply i")
    case None
    show ?thesis
    proof (cases "find (\<lambda>other. address server = address other) later")
      case N2: None
      have "new_failures self (snd (undesirable_loop typeReply T (Suc i) later ?u))
          = new_failures self ?u @ new_failures ?u (snd (undesirable_loop typeReply T (Suc i) later ?u))"
        by (rule new_failures_trans [OF eu undesirable_loop_extends])
      then show ?thesis using None N2 nu Cons.IH [where i = "Suc i" and self = ?u] by auto
    next
      case (Some other)
      then show ?thesis using None nu
        by (simp add: new_failures_testFailure_ext new_failures_traceEvent_ext)
    qed
  next
    case (Some t)
    show ?thesis
    proof (cases "t = T")
      case False
      then show ?thesis using Some
        by (simp add: new_failures_testFailure_ext new_failures_traceEvent_ext)
    next
      case True
      then show ?thesis using Some Cons.IH [where i = "Suc i" and self = self]
        by (cases "find (\<lambda>other. address server = address other) later")
           (simp_all add: new_failures_testFailure_ext new_failures_traceEvent_ext)
    qed
  qed
qed

lemma checkForUndesirableServers_iff:
  "fst (checkForUndesirableServers servers typeReply T self)
     = (wrong_store_type servers typeReply T \<or> duplicate_address servers)"
  using undesirable_loop_iff [of typeReply T 0 servers self]
  by (simp add: checkForUndesirableServers_def wrong_store_type_def duplicate_address_def)

lemma quiescentQueueChecks_failures:
  "firstClient self \<Longrightarrow> performQuiescentChecks self \<Longrightarrow>
   new_failures self
     (state_of (quiescentQueueChecks servers typeReply T (Inr q1) (Inr q2) (Inl attribute_not_found) self))
   = new_failures self (snd (checkForUndesirableServers servers typeReply T self))
     @ (if q1 > 0 then [''Non-zero data distribution queue/in-flight size''] else [])
     @ (if q2 > 100000 then [''Non-zero tlog queue size''] else [])
     @ (if fst (checkForUndesirableServers servers typeReply T self) then []
        else [''Could not read storage queue size''])"
proof -
  obtain h self1 where c: "checkForUndesirableServers servers typeReply T self = (h, self1)"
    by (cases "checkForUndesirableServers servers typeReply T self")
  have e1: "extends self self1"
    using undesirable_loop_extends [of self typeReply T 0 servers] c
    by (simp add: checkForUndesirableServers_def)
  assume "firstClient self" "performQuiescentChecks self"
  then show ?thesis
    using e1
    by (simp add: quiescentQueueChecks_def storageQueueCheck_def c Let_def
        new_failures_testFailure_ext new_failures_traceEvent_ext)
qed

lemma quiescentQueueChecks_continues:
  "continues (quiescentQueueChecks servers typeReply T (Inr q1) (Inr q2) (Inl attribute_not_found) self)
     = Some ()"
  by (simp add: quiescentQueueChecks_def storageQueueCheck_def Let_def split: prod.splits)

text \<open>
  C7 (amended). In a quiescent run, when the read of the maximum storage-server
  queue size fails with \<open>attribute_not_found\<close>, the failure "Could not read storage
  queue size" is recorded exactly when \<open>checkForUndesirableServers\<close> returned false,
  that is when no server reported a store type other than the configured one and no
  two servers share an address. A server that did not answer, a non-empty data
  distribution queue and a long TLog queue do not suppress it; the block goes on in
  every case.
\<close>

theorem storage_queue_error_suppressed:
  assumes "firstClient self" "performQuiescentChecks self"
  shows "(''Could not read storage queue size'' \<in> set (new_failures self
       (state_of (quiescentQueueChecks servers typeReply T (Inr q1) (Inr q2)
                    (Inl attribute_not_found) self))))
     = (\<not> wrong_store_type servers typeReply T \<and> \<not> duplicate_address servers)
   \<and> fst (checkForUndesirableServers servers typeReply T self)
     = (wrong_store_type servers typeReply T \<or> duplicate_address servers)
   \<and> continues (quiescentQueueChecks servers typeReply T (Inr q1) (Inr q2)
                    (Inl attribute_not_found) self) = Some ()"
proof -
  have "''Could not read storage queue size''
      \<notin> set (new_failures self (snd (checkForUndesirableServers servers typeReply T self)))"
    using undesirable_loop_failures [of self typeReply T 0 servers]
    by (auto simp: checkForUndesirableServers_def)
  then show ?thesis
    using assms
    by (simp add: quiescentQueueChecks_failures checkForUndesirableServers_iff
        quiescentQueueChecks_continues)
qed

theorem storage_queue_error_suppressed_witness:
  "''Could not read storage queue size'' \<in> set (new_failures (new_workload quiescent_options 0 1)
       (state_of (quiescentQueueChecks [example_server 1, example_server 2] (\<lambda>i. if i = 0 then None else Some True) True
                    (Inr 3) (Inr 0) (Inl attribute_not_found) (new_workload quiescent_options 0 1))))
   \<and> wrong_store_type [example_server 1, example_server 2] (\<lambda>i. if i = 0 then None else Some True) True = False
   \<and> duplicate_address [example_server 1, example_server 2] = False"
proof -
  have w: "wrong_store_type [example_server 1, example_server 2] (\<lambda>i. if i = 0 then None else Some True) True = False"
    by (simp add: wrong_store_type_def)
  have d: "duplicate_address [example_server 1, example_server 2] = False"
    by (simp add: duplicate_address_def example_server_def)
  show ?thesis
    using storage_queue_error_suppressed [of "new_workload quiescent_options 0 1"
        "[example_server 1, example_server 2]" "\<lambda>i. if i = 0 then None else Some True" True 3 0] w d
    by simp
qed

text \<open>
  A single server with the wrong store type: no two servers share an address, and yet
  the only failure recorded is the store type, the queue-size failure is suppressed.
\<close>

theorem wrong_store_type_suppresses_counterexample:
  "duplicate_address [example_server 1] = False
   \<and> new_failures (new_workload quiescent_options 0 1)
       (state_of (quiescentQueueChecks [example_server 1] (\<lambda>i. Some False) True
                    (Inr 0) (Inr 0) (Inl attribute_not_found) (new_workload quiescent_options 0 1)))
     = [''Storage server has wrong key-value store type'']"
  by (simp add: duplicate_address_def quiescentQueueChecks_def checkForUndesirableServers_def
      storageQueueCheck_def Let_def new_failures_testFailure_ext new_failures_traceEvent_ext)

section \<open>The replies of a page of key-server locations\<close>

declare readLocationResults.simps [simp del]

lemma readLocationResults_scan:
  "j \<le> length futs \<Longrightarrow>
   (0 \<le> fv \<longrightarrow> nat fv < length futs \<and> futs ! nat fv = ref \<and> ref \<noteq> None) \<Longrightarrow>
   readLocationResults futs j fv self
     = finish (scan (performQuiescentChecks self) j fv ref (drop j futs)) self"
proof (induction futs j fv self arbitrary: ref rule: readLocationResults.induct)
  case (1 futs j fv self)
  show ?case
  proof (cases "j < length futs")
    case False
    then show ?thesis using "1.prems" by (subst readLocationResults.simps) simp
  next
    case True
    then have d: "drop j futs = futs ! j # drop (Suc j) futs"
      by (simp add: Cons_nth_drop_Suc)
    have last: "(int j = int (length futs) - 1) = (drop (Suc j) futs = [])"
      using True by auto
    show ?thesis
    proof (cases "futs ! j")
      case None
      show ?thesis
      proof (cases "performQuiescentChecks self")
        case q: True
        then show ?thesis using True None d
          by (simp add: readLocationResults.simps [of futs j])
      next
        case q: False
        show ?thesis
        proof (cases "fv < 0 \<and> int j = int (length futs) - 1")
          case t: True
          then show ?thesis using True None d q last
            by (simp add: readLocationResults.simps [of futs j])
        next
          case f: False
          have "readLocationResults futs (j + 1) fv self
              = finish (scan (performQuiescentChecks self) (j + 1) fv ref (drop (j + 1) futs)) self"
            using True None q f "1.prems" by (intro "1.IH"(1)) auto
          then show ?thesis using True None d q f last
            by (simp add: readLocationResults.simps [of futs j])
        qed
      qed
    next
      case (Some reply)
      show ?thesis
      proof (cases "fv < 0")
        case neg: True
        have "readLocationResults futs (j + 1) (int j) self
              = finish (scan (performQuiescentChecks self) (j + 1) (int j) (Some reply) (drop (j + 1) futs)) self"
          using True Some neg by (intro "1.IH"(2)) auto
        then show ?thesis using True Some d neg
          by (simp add: readLocationResults.simps [of futs j])
      next
        case pos: False
        then have r: "futs ! nat fv = ref" "ref \<noteq> None" using "1.prems" by auto
        show ?thesis
        proof (cases "agrees (the ref) reply")
          case a: False
          then show ?thesis using True Some d pos r
            by (auto simp add: readLocationResults.simps [of futs j] agrees_def)
        next
          case a: True
          have "readLocationResults futs (j + 1) fv self
              = finish (scan (performQuiescentChecks self) (j + 1) fv ref (drop (j + 1) futs)) self"
            using True Some pos a r "1.prems" by (intro "1.IH"(3)) (auto simp: agrees_def)
          then show ?thesis using True Some d pos r a
            by (auto simp add: readLocationResults.simps [of futs j] agrees_def)
        qed
      qed
    qed
  qed
qed

lemma present_simps [simp]:
  "present [] = []"
  "present (None # futs) = present futs"
  "present (Some reply # futs) = reply # present futs"
  by (simp_all add: present_def List.map_filter_def)

lemma present_append [simp]: "present (xs @ ys) = present xs @ present ys"
  by (simp add: present_def List.map_filter_def)

lemma present_map_Some [simp]: "present (map Some good) = good"
  by (induction good) simp_all

lemma present_empty_iff: "(present futs = []) = (\<forall>x\<in>set futs. x = None)"
proof (induction futs)
  case Nil
  then show ?case by simp
next
  case (Cons x futs)
  then show ?case by (cases x) auto
qed

lemma agrees_refl [simp]: "agrees f f"
  by (simp add: agrees_def)

lemma scan_pos_Ok:
  "0 \<le> fv \<Longrightarrow>
   (scan q j fv (Some f) rest = Ok fv')
     = (fv' = fv \<and> list_all (agrees f) (present rest) \<and> (q \<longrightarrow> None \<notin> set rest))"
proof (induction rest arbitrary: j)
  case Nil
  then show ?case by auto
next
  case (Cons x rest)
  then show ?case by (cases x) auto
qed

lemma scan_pos_other:
  "0 \<le> fv \<Longrightarrow>
   scan q j fv (Some f) rest \<noteq> AllFailed
   \<and> (scan q j fv (Some f) rest = Unavailable \<longrightarrow> q \<and> None \<in> set rest)
   \<and> (scan q j fv (Some f) rest = Inconsistent \<longrightarrow> \<not> list_all (agrees f) (present rest))"
proof (induction rest arbitrary: j)
  case Nil
  then show ?case by simp
next
  case (Cons x rest)
  then show ?case by (cases x) auto
qed

lemma scan_neg_Ok:
  "fv < 0 \<Longrightarrow> scan q j fv ref rest = Ok fv' \<Longrightarrow>
   list_all (agrees (hd (present rest))) (present rest) \<and> (q \<longrightarrow> None \<notin> set rest)
   \<and> (rest = [] \<longrightarrow> fv' = fv)
   \<and> (rest \<noteq> [] \<longrightarrow> 0 \<le> fv' \<and> j \<le> nat fv' \<and> nat fv' - j < length rest
         \<and> rest ! (nat fv' - j) = Some (hd (present rest)))"
proof (induction rest arbitrary: j)
  case Nil
  then show ?case by simp
next
  case (Cons x rest)
  show ?case
  proof (cases x)
    case None
    with Cons.prems have nq: "\<not> q" and ne: "rest \<noteq> []"
      and s: "scan q (Suc j) fv ref rest = Ok fv'"
      by (auto split: if_splits)
    from Cons.IH [OF Cons.prems(1) s] ne
    have ih: "list_all (agrees (hd (present rest))) (present rest)"
      "0 \<le> fv'" "Suc j \<le> nat fv'" "nat fv' - Suc j < length rest"
      "rest ! (nat fv' - Suc j) = Some (hd (present rest))" by auto
    have "nat fv' - j = Suc (nat fv' - Suc j)" using ih(3) by simp
    then show ?thesis using None nq ih by simp
  next
    case (Some reply)
    with Cons.prems have "scan q (Suc j) (int j) (Some reply) rest = Ok fv'" by simp
    then have "fv' = int j" "list_all (agrees reply) (present rest)" "q \<longrightarrow> None \<notin> set rest"
      by (simp_all add: scan_pos_Ok)
    then show ?thesis using Some by simp
  qed
qed

lemma scan_neg_other:
  "fv < 0 \<Longrightarrow>
   (scan q j fv ref rest = AllFailed \<longrightarrow> \<not> q \<and> rest \<noteq> [] \<and> present rest = [])
   \<and> (scan q j fv ref rest = Unavailable \<longrightarrow> q \<and> None \<in> set rest)
   \<and> (scan q j fv ref rest = Inconsistent \<longrightarrow>
        \<not> list_all (agrees (hd (present rest))) (present rest))"
proof (induction rest arbitrary: j)
  case Nil
  then show ?case by simp
next
  case (Cons x rest)
  show ?case
  proof (cases x)
    case None
    then show ?thesis using Cons by auto
  next
    case (Some reply)
    then show ?thesis using Cons.prems scan_pos_other [of "int j" q "Suc j" reply rest] by auto
  qed
qed

lemma scan_all_failed:
  "fv < 0 \<Longrightarrow> \<not> q \<Longrightarrow> rest \<noteq> [] \<Longrightarrow> present rest = [] \<Longrightarrow> scan q j fv ref rest = AllFailed"
proof (induction rest arbitrary: j)
  case Nil
  then show ?case by simp
next
  case (Cons x rest)
  then show ?case by (cases x; cases "rest = []") auto
qed

lemma scan_pos_missing:
  "0 \<le> fv \<Longrightarrow>
   scan True j fv (Some f) (map Some good @ None # later)
     = (if list_all (agrees f) good then Unavailable else Inconsistent)"
  by (induction good arbitrary: j) auto

lemma scan_neg_missing:
  "fv < 0 \<Longrightarrow>
   scan True j fv ref (map Some good @ None # later)
     = (if list_all (agrees (hd good)) good then Unavailable else Inconsistent)"
  by (cases good) (simp_all add: scan_pos_missing)

lemma scan_pos_differs:
  "0 \<le> fv \<Longrightarrow> list_all (agrees f) (present pre) \<Longrightarrow> \<not> agrees f bad \<Longrightarrow>
   scan q j fv (Some f) (pre @ Some bad # later)
     = (if q \<and> None \<in> set pre then Unavailable else Inconsistent)"
proof (induction pre arbitrary: j)
  case Nil
  then show ?case by simp
next
  case (Cons x pre)
  then show ?case by (cases x) auto
qed

lemma scan_neg_differs:
  "fv < 0 \<Longrightarrow> present pre \<noteq> [] \<Longrightarrow> list_all (agrees (hd (present pre))) (present pre) \<Longrightarrow>
   \<not> agrees (hd (present pre)) bad \<Longrightarrow>
   scan q j fv ref (pre @ Some bad # later)
     = (if q \<and> None \<in> set pre then Unavailable else Inconsistent)"
proof (induction pre arbitrary: j)
  case Nil
  then show ?case by simp
next
  case (Cons x pre)
  show ?case
  proof (cases x)
    case None
    then show ?thesis using Cons by auto
  next
    case (Some reply)
    then show ?thesis using Cons.prems scan_pos_differs [of "int j" reply pre bad q "Suc j" later]
      by auto
  qed
qed

lemma getKeyLocations_page_verdict:
  "getKeyLocations_page futs self =
     (case page_verdict futs self of
        Ok fv \<Rightarrow> Next (Reference fv) self
      | Unavailable \<Rightarrow>
          Return (False, None)
            (testFailure ''Key server unavailable''
              (traceEvent SevInfo ''ConsistencyCheck_KeyServerUnavailable'' [] self))
      | Inconsistent \<Rightarrow>
          Return (False, None)
            (testFailure ''Key servers inconsistent''
              (traceEvent SevInfo ''ConsistencyCheck_InconsistentKeyServers'' [] self))
      | AllFailed \<Rightarrow> Throw all_alternatives_failed self)"
  using readLocationResults_scan [of 0 futs "- 1" None self]
  by (simp add: getKeyLocations_page_def page_verdict_def split: verdict.splits)

lemma page_unavailable:
  "page_verdict futs self = Unavailable \<Longrightarrow>
   returned (getKeyLocations_page futs self) = Some (False, None)
   \<and> success (state_of (getKeyLocations_page futs self)) = False
   \<and> new_failures self (state_of (getKeyLocations_page futs self)) = [''Key server unavailable'']
   \<and> thrown (getKeyLocations_page futs self) = None"
  by (simp add: getKeyLocations_page_verdict new_failures_testFailure new_failures_traceEvent)

lemma page_inconsistent:
  "page_verdict futs self = Inconsistent \<Longrightarrow>
   returned (getKeyLocations_page futs self) = Some (False, None)
   \<and> success (state_of (getKeyLocations_page futs self)) = False
   \<and> new_failures self (state_of (getKeyLocations_page futs self)) = [''Key servers inconsistent'']
   \<and> thrown (getKeyLocations_page futs self) = None"
  by (simp add: getKeyLocations_page_verdict new_failures_testFailure new_failures_traceEvent)

lemma page_disagreement:
  assumes "\<exists>reply\<in>set (present futs). \<not> agrees (hd (present futs)) reply"
  shows "page_verdict futs self = Inconsistent
     \<or> page_verdict futs self = Unavailable \<and> performQuiescentChecks self \<and> None \<in> set futs"
proof (cases "page_verdict futs self")
  case (Ok fv)
  then show ?thesis
    using assms scan_neg_Ok [of "- 1" "performQuiescentChecks self" 0 None futs fv]
    by (auto simp: page_verdict_def list_all_iff)
next
  case Unavailable
  then show ?thesis
    using scan_neg_other [of "- 1" "performQuiescentChecks self" 0 None futs]
    by (simp add: page_verdict_def)
next
  case Inconsistent
  then show ?thesis by simp
next
  case AllFailed
  then have "present futs = []"
    using scan_neg_other [of "- 1" "performQuiescentChecks self" 0 None futs]
    by (simp add: page_verdict_def)
  then show ?thesis using assms by simp
qed

lemma page_reference:
  assumes "continues (getKeyLocations_page futs self) = Some (Reference fv)"
  shows "(\<forall>reply\<in>set (present futs). agrees (hd (present futs)) reply)
     \<and> state_of (getKeyLocations_page futs self) = self
     \<and> (futs \<noteq> [] \<longrightarrow> 0 \<le> fv \<and> nat fv < length futs \<and> futs ! nat fv = Some (hd (present futs)))"
proof -
  have v: "page_verdict futs self = Ok fv"
    using assms by (simp add: getKeyLocations_page_verdict split: verdict.splits)
  then have "scan (performQuiescentChecks self) 0 (- 1) None futs = Ok fv"
    by (simp add: page_verdict_def)
  from scan_neg_Ok [OF _ this] v show ?thesis
    by (simp add: getKeyLocations_page_verdict list_all_iff)
qed

text \<open>
  C3 (amended). For every page fetched by \<open>getKeyLocations\<close>, if a present reply
  differs in \<open>data\<close> or \<open>more\<close> from the first present reply, the actor returns
  false without sending a result and records one failure: "Key servers inconsistent",
  unless the run is quiescent and a replica listed before the first differing reply
  did not answer, in which case the failure recorded is "Key server unavailable".
  Hence, in quiescent and non-quiescent runs alike, a page whose reference reply is
  decoded has every present reply equal to the reference, which is the first present
  reply, and records nothing.
\<close>

theorem key_servers_inconsistent:
  "((\<exists>reply\<in>set (present futs). \<not> agrees (hd (present futs)) reply) \<longrightarrow>
      returned (getKeyLocations_page futs self) = Some (False, None)
      \<and> success (state_of (getKeyLocations_page futs self)) = False
      \<and> (new_failures self (state_of (getKeyLocations_page futs self)) = [''Key servers inconsistent'']
          \<or> performQuiescentChecks self \<and> None \<in> set futs
            \<and> new_failures self (state_of (getKeyLocations_page futs self))
                = [''Key server unavailable'']))
   \<and> (present pre \<noteq> [] \<and> list_all (agrees (hd (present pre))) (present pre)
        \<and> \<not> agrees (hd (present pre)) bad \<longrightarrow>
      new_failures self (state_of (getKeyLocations_page (pre @ Some bad # later) self))
        = (if performQuiescentChecks self \<and> None \<in> set pre
           then [''Key server unavailable''] else [''Key servers inconsistent'']))
   \<and> (continues (getKeyLocations_page futs self) = Some (Reference fv) \<longrightarrow>
        (\<forall>reply\<in>set (present futs). agrees (hd (present futs)) reply)
        \<and> state_of (getKeyLocations_page futs self) = self
        \<and> (futs \<noteq> [] \<longrightarrow>
             0 \<le> fv \<and> nat fv < length futs \<and> futs ! nat fv = Some (hd (present futs))))"
proof (intro conjI impI)
  assume d: "\<exists>reply\<in>set (present futs). \<not> agrees (hd (present futs)) reply"
  note v = page_disagreement [OF d, of self]
  show "returned (getKeyLocations_page futs self) = Some (False, None)"
    using v page_unavailable [of futs self] page_inconsistent [of futs self] by blast
  show "success (state_of (getKeyLocations_page futs self)) = False"
    using v page_unavailable [of futs self] page_inconsistent [of futs self] by blast
  show "new_failures self (state_of (getKeyLocations_page futs self)) = [''Key servers inconsistent'']
          \<or> performQuiescentChecks self \<and> None \<in> set futs
            \<and> new_failures self (state_of (getKeyLocations_page futs self))
                = [''Key server unavailable'']"
    using v page_unavailable [of futs self] page_inconsistent [of futs self] by blast
next
  assume a: "present pre \<noteq> [] \<and> list_all (agrees (hd (present pre))) (present pre)
        \<and> \<not> agrees (hd (present pre)) bad"
  have "page_verdict (pre @ Some bad # later) self
      = (if performQuiescentChecks self \<and> None \<in> set pre then Unavailable else Inconsistent)"
    using a unfolding page_verdict_def by (intro scan_neg_differs) auto
  then show "new_failures self (state_of (getKeyLocations_page (pre @ Some bad # later) self))
        = (if performQuiescentChecks self \<and> None \<in> set pre
           then [''Key server unavailable''] else [''Key servers inconsistent''])"
    using page_unavailable [of "pre @ Some bad # later" self]
      page_inconsistent [of "pre @ Some bad # later" self]
    by (simp split: if_splits)
next
  assume c: "continues (getKeyLocations_page futs self) = Some (Reference fv)"
  note r = page_reference [OF c]
  show "\<forall>reply\<in>set (present futs). agrees (hd (present futs)) reply" using r by blast
  show "state_of (getKeyLocations_page futs self) = self" using r by blast
  show "0 \<le> fv" if "futs \<noteq> []" using r that by blast
  show "nat fv < length futs" if "futs \<noteq> []" using r that by blast
  show "futs ! nat fv = Some (hd (present futs))" if "futs \<noteq> []" using r that by blast
qed

lemma replies_differ [simp]: "agrees reply_a reply_b = False" "agrees reply_b reply_a = False"
  by (simp_all add: agrees_def reply_a_def reply_b_def)

lemma non_quiescent_options_fields [simp]:
  "getOption (opt_performQuiescentChecks non_quiescent_options) False = False"
  "getOption (opt_failureIsError non_quiescent_options) False = False"
  by (simp_all add: non_quiescent_options_def quiescent_options_def getOption_def)

theorem key_servers_inconsistent_witness:
  "returned (getKeyLocations_page [Some reply_a, None, Some reply_b]
        (new_workload non_quiescent_options 0 1)) = Some (False, None)
   \<and> new_failures (new_workload non_quiescent_options 0 1)
     (state_of (getKeyLocations_page ([Some reply_a, None] @ Some reply_b # [])
        (new_workload non_quiescent_options 0 1)))
     = [''Key servers inconsistent'']
   \<and> continues (getKeyLocations_page [None, Some reply_a, Some reply_a]
        (new_workload non_quiescent_options 0 1)) = Some (Reference 1)
   \<and> [None, Some reply_a, Some reply_a] ! nat 1
     = Some (hd (present [None, Some reply_a, Some reply_a]))
   \<and> state_of (getKeyLocations_page [None, Some reply_a, Some reply_a]
        (new_workload non_quiescent_options 0 1)) = new_workload non_quiescent_options 0 1"
proof -
  have p: "present [Some reply_a, None] \<noteq> []
      \<and> list_all (agrees (hd (present [Some reply_a, None]))) (present [Some reply_a, None])
      \<and> \<not> agrees (hd (present [Some reply_a, None])) reply_b"
    by simp
  have d: "\<exists>reply\<in>set (present [Some reply_a, None, Some reply_b]).
      \<not> agrees (hd (present [Some reply_a, None, Some reply_b])) reply"
    by simp
  have c: "continues (getKeyLocations_page [None, Some reply_a, Some reply_a]
        (new_workload non_quiescent_options 0 1)) = Some (Reference 1)"
    by (simp add: getKeyLocations_page_verdict page_verdict_def)
  note t1 = key_servers_inconsistent [of "[Some reply_a, None, Some reply_b]"
      "new_workload non_quiescent_options 0 1" "[Some reply_a, None]" reply_b "[]"]
  note t2 = key_servers_inconsistent [of "[None, Some reply_a, Some reply_a]"
      "new_workload non_quiescent_options 0 1" "[]" reply_a "[]" 1]
  show ?thesis using t1 t2 p d c by simp
qed

text \<open>
  In a quiescent run a missing reply listed before the differing one is found first:
  the failure recorded is "Key server unavailable", not "Key servers inconsistent".
\<close>

theorem missing_reply_first_counterexample:
  "agrees reply_a reply_b = False
   \<and> new_failures (new_workload quiescent_options 0 1)
       (state_of (getKeyLocations_page [Some reply_a, None, Some reply_b]
          (new_workload quiescent_options 0 1)))
     = [''Key server unavailable'']"
  by (simp add: getKeyLocations_page_verdict page_verdict_def
      new_failures_testFailure new_failures_traceEvent)

lemma page_missing_quiescent:
  assumes "performQuiescentChecks self" "None \<in> set futs"
  shows "page_verdict futs self = Unavailable
     \<or> page_verdict futs self = Inconsistent
        \<and> (\<exists>reply\<in>set (present futs). \<not> agrees (hd (present futs)) reply)"
proof (cases "page_verdict futs self")
  case (Ok fv)
  then show ?thesis
    using assms scan_neg_Ok [of "- 1" "performQuiescentChecks self" 0 None futs fv]
    by (simp add: page_verdict_def)
next
  case Unavailable
  then show ?thesis by simp
next
  case Inconsistent
  then show ?thesis
    using scan_neg_other [of "- 1" "performQuiescentChecks self" 0 None futs]
    by (auto simp: page_verdict_def list_all_iff)
next
  case AllFailed
  then show ?thesis
    using assms scan_neg_other [of "- 1" "performQuiescentChecks self" 0 None futs]
    by (simp add: page_verdict_def)
qed

lemma page_tolerated:
  assumes "\<not> performQuiescentChecks self" "present futs \<noteq> []"
  shows "page_verdict futs self = Inconsistent
           \<and> (\<exists>reply\<in>set (present futs). \<not> agrees (hd (present futs)) reply)
     \<or> (\<exists>fv. page_verdict futs self = Ok fv)"
proof (cases "page_verdict futs self")
  case (Ok fv)
  then show ?thesis by simp
next
  case Unavailable
  then show ?thesis
    using assms scan_neg_other [of "- 1" "performQuiescentChecks self" 0 None futs]
    by (simp add: page_verdict_def)
next
  case Inconsistent
  then show ?thesis
    using scan_neg_other [of "- 1" "performQuiescentChecks self" 0 None futs]
    by (auto simp: page_verdict_def list_all_iff)
next
  case AllFailed
  then show ?thesis
    using assms scan_neg_other [of "- 1" "performQuiescentChecks self" 0 None futs]
    by (simp add: page_verdict_def)
qed

text \<open>
  C4 (amended). In a quiescent run a page with a missing reply makes the actor return
  false without a result and records one failure: "Key server unavailable" when the
  replies listed before the missing one agree, and "Key servers inconsistent" when
  two of them differ. In a non-quiescent run a page where no replica of the shard
  answered throws \<open>all_alternatives_failed\<close>, which leaves \<open>getKeyLocations\<close> and
  is logged as a retry by the handler of \<open>runCheck\<close>; a page where some replica
  answered throws nothing and never records "Key server unavailable", and it is
  decoded when the replies that are present agree.
\<close>

theorem missing_key_server_reply:
  "(performQuiescentChecks self \<and> None \<in> set futs \<longrightarrow>
      returned (getKeyLocations_page futs self) = Some (False, None)
      \<and> success (state_of (getKeyLocations_page futs self)) = False
      \<and> (new_failures self (state_of (getKeyLocations_page futs self)) = [''Key server unavailable'']
          \<or> new_failures self (state_of (getKeyLocations_page futs self))
               = [''Key servers inconsistent'']
            \<and> (\<exists>reply\<in>set (present futs). \<not> agrees (hd (present futs)) reply)))
   \<and> (performQuiescentChecks self \<longrightarrow>
      new_failures self (state_of (getKeyLocations_page (map Some good @ None # later) self))
        = (if list_all (agrees (hd good)) good
           then [''Key server unavailable''] else [''Key servers inconsistent'']))
   \<and> (\<not> performQuiescentChecks self \<and> futs \<noteq> [] \<and> present futs = [] \<longrightarrow>
      getKeyLocations_page futs self = Throw all_alternatives_failed self
      \<and> runCheck_catch describe all_alternatives_failed self
          = traceEvent SevInfo ''ConsistencyCheck_Retry'' [] self)
   \<and> (\<not> performQuiescentChecks self \<and> present futs \<noteq> [] \<longrightarrow>
      thrown (getKeyLocations_page futs self) = None
      \<and> ''Key server unavailable''
           \<notin> set (new_failures self (state_of (getKeyLocations_page futs self)))
      \<and> ((\<forall>reply\<in>set (present futs). agrees (hd (present futs)) reply) \<longrightarrow>
           (\<exists>fv. getKeyLocations_page futs self = Next (Reference fv) self)))"
proof (intro conjI impI)
  assume a: "performQuiescentChecks self \<and> None \<in> set futs"
  then have v: "page_verdict futs self = Unavailable
     \<or> page_verdict futs self = Inconsistent
        \<and> (\<exists>reply\<in>set (present futs). \<not> agrees (hd (present futs)) reply)"
    using page_missing_quiescent [of self futs] by simp
  show "returned (getKeyLocations_page futs self) = Some (False, None)"
    using v page_unavailable [of futs self] page_inconsistent [of futs self] by blast
  show "success (state_of (getKeyLocations_page futs self)) = False"
    using v page_unavailable [of futs self] page_inconsistent [of futs self] by blast
  show "new_failures self (state_of (getKeyLocations_page futs self)) = [''Key server unavailable'']
          \<or> new_failures self (state_of (getKeyLocations_page futs self))
               = [''Key servers inconsistent'']
            \<and> (\<exists>reply\<in>set (present futs). \<not> agrees (hd (present futs)) reply)"
    using v page_unavailable [of futs self] page_inconsistent [of futs self] by blast
next
  assume q: "performQuiescentChecks self"
  have "page_verdict (map Some good @ None # later) self
      = (if list_all (agrees (hd good)) good then Unavailable else Inconsistent)"
    using q by (simp add: page_verdict_def scan_neg_missing)
  then show "new_failures self (state_of (getKeyLocations_page (map Some good @ None # later) self))
        = (if list_all (agrees (hd good)) good
           then [''Key server unavailable''] else [''Key servers inconsistent''])"
    using page_unavailable [of "map Some good @ None # later" self]
      page_inconsistent [of "map Some good @ None # later" self]
    by (simp split: if_splits)
next
  assume a: "\<not> performQuiescentChecks self \<and> futs \<noteq> [] \<and> present futs = []"
  then have "page_verdict futs self = AllFailed"
    by (simp add: page_verdict_def scan_all_failed)
  then show "getKeyLocations_page futs self = Throw all_alternatives_failed self"
    by (simp add: getKeyLocations_page_verdict)
  show "runCheck_catch describe all_alternatives_failed self
          = traceEvent SevInfo ''ConsistencyCheck_Retry'' [] self"
    by (simp add: runCheck_catch_def)
next
  assume a: "\<not> performQuiescentChecks self \<and> present futs \<noteq> []"
  then have v: "page_verdict futs self = Inconsistent
           \<and> (\<exists>reply\<in>set (present futs). \<not> agrees (hd (present futs)) reply)
     \<or> (\<exists>fv. page_verdict futs self = Ok fv)"
    using page_tolerated [of self futs] by simp
  show "thrown (getKeyLocations_page futs self) = None"
    using v by (auto simp: getKeyLocations_page_verdict)
  show "''Key server unavailable''
           \<notin> set (new_failures self (state_of (getKeyLocations_page futs self)))"
    using v page_inconsistent [of futs self] by (auto simp: getKeyLocations_page_verdict)
  show "\<exists>fv. getKeyLocations_page futs self = Next (Reference fv) self"
    if "\<forall>reply\<in>set (present futs). agrees (hd (present futs)) reply"
    using v that by (auto simp: getKeyLocations_page_verdict)
qed

theorem missing_key_server_reply_witness:
  "returned (getKeyLocations_page [Some reply_a, Some reply_a, None, Some reply_b]
        (new_workload quiescent_options 0 1)) = Some (False, None)
   \<and> new_failures (new_workload quiescent_options 0 1)
     (state_of (getKeyLocations_page (map Some [reply_a, reply_a] @ None # [Some reply_b])
        (new_workload quiescent_options 0 1)))
     = [''Key server unavailable'']
   \<and> getKeyLocations_page [None, None] (new_workload non_quiescent_options 0 1)
     = Throw all_alternatives_failed (new_workload non_quiescent_options 0 1)
   \<and> thrown (getKeyLocations_page [None, Some reply_a] (new_workload non_quiescent_options 0 1))
     = None
   \<and> (\<exists>fv. getKeyLocations_page [None, Some reply_a] (new_workload non_quiescent_options 0 1)
        = Next (Reference fv) (new_workload non_quiescent_options 0 1))"
  using missing_key_server_reply [of "new_workload quiescent_options 0 1"
       "[Some reply_a, Some reply_a, None, Some reply_b]" "[reply_a, reply_a]" "[Some reply_b]"]
    missing_key_server_reply [of "new_workload non_quiescent_options 0 1" "[None, None]"]
    missing_key_server_reply [of "new_workload non_quiescent_options 0 1" "[None, Some reply_a]"]
  by simp

text \<open>
  In a quiescent run two differing replies listed before the missing one are found
  first: the failure recorded is "Key servers inconsistent", not "Key server
  unavailable".
\<close>

theorem inconsistency_first_counterexample:
  "new_failures (new_workload quiescent_options 0 1)
       (state_of (getKeyLocations_page [Some reply_a, Some reply_b, None]
          (new_workload quiescent_options 0 1)))
     = [''Key servers inconsistent'']"
  by (simp add: getKeyLocations_page_verdict page_verdict_def
      new_failures_testFailure new_failures_traceEvent)

section \<open>The alignment diff\<close>

declare alignment_loop.simps [simp del]

lemma alignment_loop_diff_lists:
  "alignment_loop current reference i j totals
     = diff_lists (drop i current) (drop j reference) totals"
proof (induction current reference i j totals rule: alignment_loop.induct)
  case (1 current reference i j totals)
  show ?case
  proof (cases "i < length current")
    case ci: True
    then have dc: "drop i current = current ! i # drop (Suc i) current"
      by (simp add: Cons_nth_drop_Suc)
    show ?thesis
    proof (cases "j < length reference")
      case rj: True
      then have dr: "drop j reference = reference ! j # drop (Suc j) reference"
        by (simp add: Cons_nth_drop_Suc)
      show ?thesis
      proof (cases "fst (current ! i) = fst (reference ! j)")
        case eq: True
        show ?thesis
          using ci rj eq "1.IH"(3) [OF _ _ _ refl refl eq]
          by (subst alignment_loop.simps) (simp add: dc dr Let_def)
      next
        case ne: False
        show ?thesis
        proof (cases "fst (current ! i) < fst (reference ! j)")
          case lt: True
          show ?thesis
            using ci rj ne lt "1.IH"(4) [OF _ _ _ refl refl ne lt]
            by (subst alignment_loop.simps) (simp add: dc dr Let_def)
        next
          case ge: False
          show ?thesis
            using ci rj ne ge "1.IH"(5) [OF _ _ _ refl refl ne ge]
            by (subst alignment_loop.simps) (simp add: dc dr Let_def)
        qed
      qed
    next
      case rj: False
      show ?thesis
        using ci rj "1.IH"(2)
        by (subst alignment_loop.simps) (simp add: dc)
    qed
  next
    case ci: False
    show ?thesis
    proof (cases "j < length reference")
      case rj: True
      then have dr: "drop j reference = reference ! j # drop (Suc j) reference"
        by (simp add: Cons_nth_drop_Suc)
      show ?thesis
        using ci rj "1.IH"(1)
        by (subst alignment_loop.simps) (simp add: dr)
    next
      case rj: False
      then show ?thesis using ci
        by (subst alignment_loop.simps) simp
    qed
  qed
qed

lemma alignment_diff_lists: "alignment_diff current reference = diff_lists current reference no_totals"
  by (simp add: alignment_diff_def alignment_loop_diff_lists)

lemma diff_lists_each_once:
  "matchingKVPairs (diff_lists A B t) + valueMismatches (diff_lists A B t)
      + currentUniques (diff_lists A B t)
     = matchingKVPairs t + valueMismatches t + currentUniques t + int (length A)
   \<and> matchingKVPairs (diff_lists A B t) + valueMismatches (diff_lists A B t)
      + referenceUniques (diff_lists A B t)
     = matchingKVPairs t + valueMismatches t + referenceUniques t + int (length B)"
  by (induction A B t rule: diff_lists.induct) auto

lemma diff_lists_current_left:
  "currentUniques (diff_lists A [] t) = currentUniques t + int (length A)
   \<and> referenceUniques (diff_lists A [] t) = referenceUniques t
   \<and> matchingKVPairs (diff_lists A [] t) = matchingKVPairs t
   \<and> valueMismatches (diff_lists A [] t) = valueMismatches t"
  by (induction A arbitrary: t) auto

lemma diff_lists_reference_left:
  "referenceUniques (diff_lists [] B t) = referenceUniques t + int (length B)
   \<and> currentUniques (diff_lists [] B t) = currentUniques t
   \<and> matchingKVPairs (diff_lists [] B t) = matchingKVPairs t
   \<and> valueMismatches (diff_lists [] B t) = valueMismatches t"
  by (induction B arbitrary: t) auto

lemma key_ordered_Cons:
  "key_ordered (c # cs) = ((\<forall>kv\<in>set cs. fst c < fst kv) \<and> key_ordered cs)"
  by (auto simp: key_ordered_def)

lemma below_all_rows:
  assumes "\<forall>kv\<in>set rows. fst r < fst kv"
  shows "same_in (r # rs) rows = same_in rs rows"
    and "differing_in (r # rs) rows = differing_in rs rows"
    and "only_in (r # rs) rows = only_in rs rows"
  using assms unfolding same_in_def differing_in_def only_in_def
  by (auto intro!: filter_cong)

lemma below_all_other:
  fixes c :: KeyValueRef
  assumes "\<forall>kv\<in>set other. fst c < fst kv"
  shows "c \<notin> set other" and "fst c \<notin> fst ` set other"
  using assms by (auto simp: image_iff)

lemma diff_lists_sorted:
  "key_ordered A \<Longrightarrow> key_ordered B \<Longrightarrow>
   matchingKVPairs (diff_lists A B t) = matchingKVPairs t + int (length (same_in B A))
   \<and> valueMismatches (diff_lists A B t) = valueMismatches t + int (length (differing_in B A))
   \<and> currentUniques (diff_lists A B t) = currentUniques t + int (length (only_in B A))
   \<and> referenceUniques (diff_lists A B t) = referenceUniques t + int (length (only_in A B))"
proof (induction A B t rule: diff_lists.induct)
  case (1 t)
  then show ?case by (simp add: same_in_def differing_in_def only_in_def)
next
  case (2 r rs t)
  then show ?case
    using diff_lists_reference_left [of "r # rs" t]
    by (simp add: same_in_def differing_in_def only_in_def)
next
  case (3 c cs t)
  then show ?case
    using diff_lists_current_left [of "c # cs" t]
    by (simp add: same_in_def differing_in_def only_in_def)
next
  case (4 c cs r rs t)
  from "4.prems" have oc: "\<forall>kv\<in>set cs. fst c < fst kv" "key_ordered cs"
    and orr: "\<forall>kv\<in>set rs. fst r < fst kv" "key_ordered rs"
    by (simp_all add: key_ordered_Cons)
  show ?case
  proof (cases "fst c = fst r")
    case eq: True
    have c_rs: "c \<notin> set rs" "fst c \<notin> fst ` set rs"
      using orr(1) eq by auto
    have r_cs: "fst r \<notin> fst ` set cs"
      using oc(1) eq by auto
    have cr: "(c = r) = (snd c = snd r)" using eq by (auto simp: prod_eq_iff)
    have a: "same_in (r # rs) cs = same_in rs cs" "differing_in (r # rs) cs = differing_in rs cs"
      "only_in (r # rs) cs = only_in rs cs"
      using oc(1) eq by (simp_all add: below_all_rows)
    have b: "only_in (c # cs) rs = only_in cs rs"
      using orr(1) eq by (simp add: below_all_rows)
    have s1: "same_in (r # rs) (c # cs) = (if snd c = snd r then [c] else []) @ same_in rs cs"
      using c_rs cr a(1) by (auto simp: same_in_def)
    have s2: "differing_in (r # rs) (c # cs)
        = (if snd c = snd r then [] else [c]) @ differing_in rs cs"
      using c_rs cr eq a(2) by (auto simp: differing_in_def)
    have s3: "only_in (r # rs) (c # cs) = only_in rs cs"
      using eq a(3) by (auto simp: only_in_def)
    have s4: "only_in (c # cs) (r # rs) = only_in cs rs"
      using eq b by (auto simp: only_in_def)
    show ?thesis
      using eq "4.IH"(1) [OF eq oc(2) orr(2)]
      by (simp add: s1 s2 s3 s4)
  next
    case ne: False
    show ?thesis
    proof (cases "fst c < fst r")
      case lt: True
      have all: "\<forall>kv\<in>set (r # rs). fst c < fst kv" using lt orr(1) by auto
      have c_out: "c \<notin> set (r # rs)" "fst c \<notin> fst ` set (r # rs)"
        using below_all_other [OF all] by simp_all
      have s1: "same_in (r # rs) (c # cs) = same_in (r # rs) cs"
        using c_out by (simp add: same_in_def)
      have s2: "differing_in (r # rs) (c # cs) = differing_in (r # rs) cs"
        using c_out by (simp add: differing_in_def)
      have s3: "only_in (r # rs) (c # cs) = c # only_in (r # rs) cs"
        using c_out by (simp add: only_in_def)
      have s4: "only_in (c # cs) (r # rs) = only_in cs (r # rs)"
        using all by (rule below_all_rows)
      show ?thesis
        using ne lt "4.IH"(2) [OF ne lt oc(2) "4.prems"(2)]
        by (simp add: s1 s2 s3 s4)
    next
      case ge: False
      then have gt: "fst r < fst c" using ne by auto
      have all: "\<forall>kv\<in>set (c # cs). fst r < fst kv" using gt oc(1) by auto
      have r_out: "fst r \<notin> fst ` set (c # cs)"
        using below_all_other [OF all] by simp
      have s: "same_in (r # rs) (c # cs) = same_in rs (c # cs)"
        "differing_in (r # rs) (c # cs) = differing_in rs (c # cs)"
        "only_in (r # rs) (c # cs) = only_in rs (c # cs)"
        using all by (rule below_all_rows)+
      have s4: "only_in (c # cs) (r # rs) = r # only_in (c # cs) rs"
        using r_out by (simp add: only_in_def)
      show ?thesis
        using ne ge "4.IH"(3) [OF ne ge "4.prems"(1) orr(2)]
        by (simp add: s s4)
    qed
  qed
qed

declare readRangeResults.simps [simp del]

lemma value_mismatch_page:
  assumes "va \<noteq> vb"
  shows "readRangeResults expectedSize isRelocating
        [Some \<lparr>data = [(k1, vb)], more_flag = m\<rparr>, Some \<lparr>data = [(k1, va)], more_flag = m\<rparr>]
        0 (- 1) 0 self
     = Return False
        (testFailure ''Data inconsistent''
          (traceEvent SevInfo ''ConsistencyCheck_DataInconsistent''
             [(Fmt ''Server%dUniques'' 1, Num 0),
              (Fmt ''Server%dUniqueKey'' 1, Printable []),
              (Fmt ''Server%dUniques'' 0, Num 0),
              (Fmt ''Server%dUniqueKey'' 0, Printable []),
              (Lit ''ValueMismatches'', Num 1),
              (Lit ''ValueMismatchKey'', Printable k1),
              (Lit ''MatchingKVPairs'', Num 0)]
             self))"
  using assms
  apply (subst readRangeResults.simps)
  apply (simp add: Let_def)
  apply (subst readRangeResults.simps)
  apply (simp add: Let_def dataInconsistent_def alignment_diff_lists no_totals_def)
  done

text \<open>
  C2. The alignment diff counts every row of both replies exactly once: the matching
  pairs, the value mismatches and the rows unique to a side add up to the length of
  that side, and when one side is empty every row of the other is unique to it. For
  two key-ordered replies the counters are the number of rows of the current reply
  that the reference holds with the same value (\<open>matchingKVPairs\<close>), with another
  value (\<open>valueMismatches\<close>), or not at all (\<open>currentUniques\<close>), and the number
  of rows of the reference whose key the current reply does not hold
  (\<open>referenceUniques\<close>). For a current reply \<open>[(k1, va)]\<close> and a reference
  \<open>[(k1, vb)]\<close> with \<open>va \<noteq> vb\<close> the check emits one
  \<open>ConsistencyCheck_DataInconsistent\<close> event with \<open>ValueMismatches = 1\<close> and
  \<open>MatchingKVPairs = 0\<close>, records the failure and returns false.
\<close>

theorem alignment_diff_counts:
  "matchingKVPairs (alignment_diff A B) + valueMismatches (alignment_diff A B)
      + currentUniques (alignment_diff A B) = int (length A)
   \<and> matchingKVPairs (alignment_diff A B) + valueMismatches (alignment_diff A B)
      + referenceUniques (alignment_diff A B) = int (length B)
   \<and> currentUniques (alignment_diff A []) = int (length A)
   \<and> referenceUniques (alignment_diff [] B) = int (length B)
   \<and> (key_ordered A \<and> key_ordered B \<longrightarrow>
        matchingKVPairs (alignment_diff A B) = int (length (same_in B A))
        \<and> valueMismatches (alignment_diff A B) = int (length (differing_in B A))
        \<and> currentUniques (alignment_diff A B) = int (length (only_in B A))
        \<and> referenceUniques (alignment_diff A B) = int (length (only_in A B)))
   \<and> (va \<noteq> vb \<longrightarrow>
        valueMismatches (alignment_diff [(k1, va)] [(k1, vb)]) = 1
        \<and> matchingKVPairs (alignment_diff [(k1, va)] [(k1, vb)]) = 0
        \<and> readRangeResults expectedSize isRelocating
             [Some \<lparr>data = [(k1, vb)], more_flag = m\<rparr>, Some \<lparr>data = [(k1, va)], more_flag = m\<rparr>]
             0 (- 1) 0 self
           = Return False
              (testFailure ''Data inconsistent''
                (traceEvent SevInfo ''ConsistencyCheck_DataInconsistent''
                   [(Fmt ''Server%dUniques'' 1, Num 0),
                    (Fmt ''Server%dUniqueKey'' 1, Printable []),
                    (Fmt ''Server%dUniques'' 0, Num 0),
                    (Fmt ''Server%dUniqueKey'' 0, Printable []),
                    (Lit ''ValueMismatches'', Num 1),
                    (Lit ''ValueMismatchKey'', Printable k1),
                    (Lit ''MatchingKVPairs'', Num 0)]
                   self)))"
proof (intro conjI impI)
  note once = diff_lists_each_once [of A B no_totals]
  show "matchingKVPairs (alignment_diff A B) + valueMismatches (alignment_diff A B)
      + currentUniques (alignment_diff A B) = int (length A)"
    using once by (simp add: alignment_diff_lists no_totals_def)
  show "matchingKVPairs (alignment_diff A B) + valueMismatches (alignment_diff A B)
      + referenceUniques (alignment_diff A B) = int (length B)"
    using once by (simp add: alignment_diff_lists no_totals_def)
  show "currentUniques (alignment_diff A []) = int (length A)"
    using diff_lists_current_left [of A no_totals]
    by (simp add: alignment_diff_lists no_totals_def)
  show "referenceUniques (alignment_diff [] B) = int (length B)"
    using diff_lists_reference_left [of B no_totals]
    by (simp add: alignment_diff_lists no_totals_def)
next
  assume o: "key_ordered A \<and> key_ordered B"
  then have s: "matchingKVPairs (diff_lists A B no_totals)
        = matchingKVPairs no_totals + int (length (same_in B A))
   \<and> valueMismatches (diff_lists A B no_totals)
        = valueMismatches no_totals + int (length (differing_in B A))
   \<and> currentUniques (diff_lists A B no_totals)
        = currentUniques no_totals + int (length (only_in B A))
   \<and> referenceUniques (diff_lists A B no_totals)
        = referenceUniques no_totals + int (length (only_in A B))"
    by (intro diff_lists_sorted) simp_all
  show "matchingKVPairs (alignment_diff A B) = int (length (same_in B A))"
    using s by (simp add: alignment_diff_lists no_totals_def)
  show "valueMismatches (alignment_diff A B) = int (length (differing_in B A))"
    using s by (simp add: alignment_diff_lists no_totals_def)
  show "currentUniques (alignment_diff A B) = int (length (only_in B A))"
    using s by (simp add: alignment_diff_lists no_totals_def)
  show "referenceUniques (alignment_diff A B) = int (length (only_in A B))"
    using s by (simp add: alignment_diff_lists no_totals_def)
next
  assume d: "va \<noteq> vb"
  show "valueMismatches (alignment_diff [(k1, va)] [(k1, vb)]) = 1"
    using d by (simp add: alignment_diff_lists no_totals_def)
  show "matchingKVPairs (alignment_diff [(k1, va)] [(k1, vb)]) = 0"
    using d by (simp add: alignment_diff_lists no_totals_def)
  show "readRangeResults expectedSize isRelocating
             [Some \<lparr>data = [(k1, vb)], more_flag = m\<rparr>, Some \<lparr>data = [(k1, va)], more_flag = m\<rparr>]
             0 (- 1) 0 self
           = Return False
              (testFailure ''Data inconsistent''
                (traceEvent SevInfo ''ConsistencyCheck_DataInconsistent''
                   [(Fmt ''Server%dUniques'' 1, Num 0),
                    (Fmt ''Server%dUniqueKey'' 1, Printable []),
                    (Fmt ''Server%dUniques'' 0, Num 0),
                    (Fmt ''Server%dUniqueKey'' 0, Printable []),
                    (Lit ''ValueMismatches'', Num 1),
                    (Lit ''ValueMismatchKey'', Printable k1),
                    (Lit ''MatchingKVPairs'', Num 0)]
                   self))"
    using d by (rule value_mismatch_page)
qed

theorem alignment_diff_counts_witness:
  "key_ordered rows_current \<and> key_ordered rows_reference
   \<and> matchingKVPairs (alignment_diff rows_current rows_reference) = 1
   \<and> valueMismatches (alignment_diff rows_current rows_reference) = 1
   \<and> currentUniques (alignment_diff rows_current rows_reference) = 1
   \<and> referenceUniques (alignment_diff rows_current rows_reference) = 1
   \<and> valueMismatches (alignment_diff [([107, 49], [118, 97])] [([107, 49], [118, 98])]) = 1
   \<and> matchingKVPairs (alignment_diff [([107, 49], [118, 97])] [([107, 49], [118, 98])]) = 0"
proof -
  have o: "key_ordered rows_current \<and> key_ordered rows_reference"
    by (simp add: key_ordered_def rows_current_def rows_reference_def)
  have f: "length (same_in rows_reference rows_current) = 1"
    "length (differing_in rows_reference rows_current) = 1"
    "length (only_in rows_reference rows_current) = 1"
    "length (only_in rows_current rows_reference) = 1"
    by (simp_all add: same_in_def differing_in_def only_in_def rows_current_def rows_reference_def)
  have d: "[118, 97] \<noteq> ([118, 98] :: bytes)" by simp
  show ?thesis
    using alignment_diff_counts [of rows_current rows_reference "[118, 97]" "[118, 98]" "[107, 49]"] o f d
    by simp
qed

end
